theory Spec2Isabelle
  imports Main "HOL-Library.Word"
begin

section \<open>The platform: paths, file system, streams, hashing\<close>

text \<open>
  The scanner of \<^verbatim>\<open>src/services/scanner/fileScanner.ts\<close> and the hashing helper of
  \<^verbatim>\<open>src/utils/hash.ts\<close> are embedded as HOL functions. What they call in Node.js
  (\<^verbatim>\<open>path\<close>, \<^verbatim>\<open>fs\<close>, \<^verbatim>\<open>crypto\<close>) is modelled just far enough to run them:

  \<^item> a path is the list of its segments below the file-system root (both callers in the
    repository, \<^verbatim>\<open>api/index.ts\<close> and the command-line entry point, construct the scanner
    from \<^verbatim>\<open>path.resolve(...)\<close>, an absolute path);
  \<^item> the file system below the scan root is a finite tree; every object carries the
    result that \<^verbatim>\<open>readdir\<close>, \<^verbatim>\<open>stat\<close> or a read stream gives for it, which may be an error;
  \<^item> what JavaScript and \<^verbatim>\<open>crypto\<close> compute by tables of their own, the lower-casing of a
    string and the digest algorithms that \<^verbatim>\<open>createHash\<close> knows by name, is a parameter
    \<open>env\<close> of every function that uses them.

  Sizes and the size bound are natural numbers of bytes, time stamps are integers. An
  option of \<^verbatim>\<open>Partial<ScanOptions>\<close> is either left out or present with a value. The optional
  \<^verbatim>\<open>dimensions\<close> of \<^verbatim>\<open>ImageMetadata\<close> are never set by the scanner and are left out.
\<close>

type_synonym byte = "8 word"

type_synonym fpath = "string list"

datatype fs_error = ENOENT | EACCES | ENOTDIR | EISDIR | EIO

subsection \<open>Node's \<^verbatim>\<open>path\<close> module on segment lists\<close>

text \<open>One step of POSIX normalisation: empty and \<^verbatim>\<open>.\<close> segments vanish, \<^verbatim>\<open>..\<close> removes the
  segment before it (and nothing at the root).\<close>

definition normalizeStep :: "fpath \<Rightarrow> string \<Rightarrow> fpath" where
  "normalizeStep acc seg =
     (if seg = [] \<or> seg = ''.'' then acc
      else if seg = ''..'' then butlast acc
      else acc @ [seg])"

definition normalize :: "fpath \<Rightarrow> fpath" where
  "normalize p = foldl normalizeStep [] p"

text \<open>\<^verbatim>\<open>path.join(dirPath, name)\<close>: concatenate, then normalise.\<close>

definition join :: "fpath \<Rightarrow> string \<Rightarrow> fpath" where
  "join dirPath name = normalize (dirPath @ [name])"

text \<open>\<^verbatim>\<open>path.resolve(p)\<close> of an absolute path is its normal form.\<close>

definition resolve :: "fpath \<Rightarrow> fpath" where
  "resolve p = normalize p"

text \<open>\<^verbatim>\<open>path.relative(from, to)\<close>: both sides are resolved, the common prefix is dropped,
  every segment left of \<open>from\<close> becomes \<^verbatim>\<open>..\<close>, and what is left of \<open>to\<close> follows.\<close>

fun relativeSegs :: "fpath \<Rightarrow> fpath \<Rightarrow> fpath" where
  "relativeSegs (f # fs) (t # ts) =
     (if f = t then relativeSegs fs ts
      else replicate (length (f # fs)) ''..'' @ (t # ts))"
| "relativeSegs fs ts = replicate (length fs) ''..'' @ ts"

definition relative :: "fpath \<Rightarrow> fpath \<Rightarrow> fpath" where
  "relative from to = relativeSegs (resolve from) (resolve to)"

text \<open>\<^verbatim>\<open>path.extname\<close> of a directory-entry name (a name holds no separator): the part from
  the last dot on, and nothing when there is no dot, when the only dot is the first
  character, or when the name is \<^verbatim>\<open>..\<close>.\<close>

fun lastIndexOf :: "char \<Rightarrow> string \<Rightarrow> nat option" where
  "lastIndexOf c [] = None"
| "lastIndexOf c (x # xs) =
     (case lastIndexOf c xs of
        Some i \<Rightarrow> Some (Suc i)
      | None \<Rightarrow> (if x = c then Some 0 else None))"

definition extname :: "string \<Rightarrow> string" where
  "extname name =
     (case lastIndexOf (CHR ''.'') name of
        None \<Rightarrow> []
      | Some i \<Rightarrow> (if i = 0 \<or> name = ''..'' then [] else drop i name))"

subsection \<open>What the runtime supplies\<close>

text \<open>
  \<^verbatim>\<open>String.prototype.toLowerCase\<close> lower-cases every cased letter of Unicode, and
  \<^verbatim>\<open>crypto.createHash(algorithm)\<close> selects a digest function by its name. Neither is code
  of the repository; both are fields of the platform the scanner runs on. A string is
  the sequence of the bytes of its UTF-8 encoding, so the dot of an extension is one
  \<open>char\<close> and a letter outside ASCII is several.
\<close>

record platform =
  toLowerCase :: "string \<Rightarrow> string"
  digestOf :: "string \<Rightarrow> byte list \<Rightarrow> byte list"

subsection \<open>The file system as a tree\<close>

record Stats =
  size_st :: nat
  birthtime :: int
  mtime :: int

text \<open>
  A regular file carries what \<^verbatim>\<open>fs.stat\<close> answers for it, the bytes a read stream
  delivers, and the error (if any) that ends the stream after those bytes; a file that
  cannot be opened delivers no byte and an error. A directory carries what
  \<^verbatim>\<open>fs.readdir\<close> answers for it: an error, or its entries in listing order. Everything
  else a listing can report (symbolic link, socket, device) is \<open>Special\<close>.
\<close>

datatype node =
    RegularFile (stat_result: "fs_error + Stats") (data: "byte list") (read_error: "fs_error option")
  | Directory (listing: "fs_error + (string \<times> node) list")
  | Special

text \<open>\<^verbatim>\<open>Dirent.isDirectory()\<close> and \<^verbatim>\<open>Dirent.isFile()\<close>.\<close>

fun isDirectory :: "node \<Rightarrow> bool" where
  "isDirectory (Directory _) = True"
| "isDirectory _ = False"

fun isFile :: "node \<Rightarrow> bool" where
  "isFile (RegularFile _ _ _) = True"
| "isFile _ = False"

text \<open>\<^verbatim>\<open>fs.readdir(dirPath, { withFileTypes: true })\<close> on the object at \<open>dirPath\<close>.\<close>

fun readdir :: "node \<Rightarrow> fs_error + (string \<times> node) list" where
  "readdir (Directory l) = l"
| "readdir _ = Inl ENOTDIR"

text \<open>\<^verbatim>\<open>fs.stat(filePath)\<close>. The scanner calls it, and opens read streams, on entries that
  the listing reported as regular files only; the other cases are there for totality.\<close>

fun stat :: "node \<Rightarrow> fs_error + Stats" where
  "stat (RegularFile st _ _) = st"
| "stat _ = Inl ENOENT"

subsection \<open>Read streams and the hash object\<close>

text \<open>A read stream cuts the bytes into chunks of at most \<open>highWaterMark\<close> bytes.\<close>

function chunksOf :: "nat \<Rightarrow> 'a list \<Rightarrow> 'a list list" where
  "chunksOf n [] = []"
| "chunksOf n (x # xs) =
     (if n = 0 then [] else take n (x # xs) # chunksOf n (drop n (x # xs)))"
  by pat_completeness auto
termination
  by (relation "measure (\<lambda>(n, xs). length xs)") auto

text \<open>\<^verbatim>\<open>createReadStream(filePath, { highWaterMark })\<close>: the \<^verbatim>\<open>data\<close> events in order, and
  then either \<^verbatim>\<open>end\<close> (\<open>None\<close>) or \<^verbatim>\<open>error\<close>.\<close>

fun createReadStream :: "node \<Rightarrow> nat \<Rightarrow> byte list list \<times> fs_error option" where
  "createReadStream (RegularFile _ bs err) highWaterMark = (chunksOf highWaterMark bs, err)"
| "createReadStream (Directory _) highWaterMark = ([], Some EISDIR)"
| "createReadStream Special highWaterMark = ([], Some ENOENT)"

text \<open>Node's \<^verbatim>\<open>Hash\<close> object holds the name of its algorithm and the data fed so far:
  \<^verbatim>\<open>update\<close> feeds data, \<^verbatim>\<open>digest('hex')\<close> is the digest of all of it under that
  algorithm, written with the digits \<^verbatim>\<open>0-9a-f\<close>.\<close>

type_synonym hash_object = "string \<times> byte list"

definition createHash :: "string \<Rightarrow> hash_object" where
  "createHash algorithm = (algorithm, [])"

definition update :: "hash_object \<Rightarrow> byte list \<Rightarrow> hash_object" where
  "update h chunk = (fst h, snd h @ chunk)"

definition hexDigits :: string where
  "hexDigits = ''0123456789abcdef''"

definition hexDigit :: "nat \<Rightarrow> char" where
  "hexDigit n = hexDigits ! (n mod 16)"

definition hexByte :: "byte \<Rightarrow> string" where
  "hexByte b = [hexDigit (unat b div 16), hexDigit (unat b mod 16)]"

definition hex :: "byte list \<Rightarrow> string" where
  "hex bs = concat (map hexByte bs)"

definition digest_hex :: "platform \<Rightarrow> hash_object \<Rightarrow> string" where
  "digest_hex env h = hex (digestOf env (fst h) (snd h))"

section \<open>The scanner\<close>

subsection \<open>Options and records\<close>

record ScanOptions =
  recursive :: bool
  includeZips :: bool
  fileTypes :: "string list"
  maxSize :: "nat option"

text \<open>\<^verbatim>\<open>Partial<ScanOptions>\<close>: every field may be left out.\<close>

record PartialScanOptions =
  opt_recursive :: "bool option"
  opt_includeZips :: "bool option"
  opt_fileTypes :: "string list option"
  opt_maxSize :: "nat option"

record ImageMetadata =
  path :: fpath
  absolutePath :: fpath
  size_bytes :: nat
  hash :: string
  created :: int
  modified :: int

definition defaultOptions :: ScanOptions where
  "defaultOptions =
     \<lparr> recursive = True, includeZips = True,
       fileTypes = [''.jpg'', ''.jpeg'', ''.png'', ''.gif'', ''.webp'', ''.bmp'', ''.tiff''],
       maxSize = None \<rparr>"

text \<open>\<^verbatim>\<open>{ ...this.defaultOptions, ...options }\<close>: a field of \<open>options\<close> that is present wins.\<close>

definition mergeOptions :: "ScanOptions \<Rightarrow> PartialScanOptions \<Rightarrow> ScanOptions" where
  "mergeOptions d p =
     \<lparr> recursive = (case opt_recursive p of None \<Rightarrow> recursive d | Some b \<Rightarrow> b),
       includeZips = (case opt_includeZips p of None \<Rightarrow> includeZips d | Some b \<Rightarrow> b),
       fileTypes = (case opt_fileTypes p of None \<Rightarrow> fileTypes d | Some ts \<Rightarrow> ts),
       maxSize = (case opt_maxSize p of None \<Rightarrow> maxSize d | Some m \<Rightarrow> Some m) \<rparr>"

subsection \<open>Effects\<close>

text \<open>What a scan does besides returning: the file-system calls it issues, and the lines
  it writes with \<^verbatim>\<open>console.error\<close>. The \<open>results\<close> array is shared by all recursive calls
  and grows by \<^verbatim>\<open>push\<close>.\<close>

datatype io_call = ReaddirCall fpath | StatCall fpath | ReadStreamCall fpath

datatype log_line = ErrorProcessingFile fpath fs_error | ErrorScanningDirectory fpath fs_error

record scan_state =
  results :: "ImageMetadata list"
  console :: "log_line list"
  io :: "io_call list"

definition io_log :: "io_call \<Rightarrow> scan_state \<Rightarrow> scan_state" where
  "io_log c s = s\<lparr>io := io s @ [c]\<rparr>"

definition console_error :: "log_line \<Rightarrow> scan_state \<Rightarrow> scan_state" where
  "console_error l s = s\<lparr>console := console s @ [l]\<rparr>"

definition push :: "ImageMetadata \<Rightarrow> scan_state \<Rightarrow> scan_state" where
  "push m s = s\<lparr>results := results s @ [m]\<rparr>"

subsection \<open>\<^verbatim>\<open>calculateFileHash\<close> (hash.ts)\<close>

definition calculateFileHash ::
  "platform \<Rightarrow> fpath \<Rightarrow> node \<Rightarrow> scan_state \<Rightarrow> (fs_error + string) \<times> scan_state" where
  "calculateFileHash env filePath f s =
     (let (chunks, err) = createReadStream f (64 * 1024);
          h = foldl update (createHash ''sha256'') chunks;
          s' = io_log (ReadStreamCall filePath) s
      in case err of
           Some e \<Rightarrow> (Inl e, s')
         | None \<Rightarrow> (Inr (digest_hex env h), s'))"

subsection \<open>\<^verbatim>\<open>FileScanner\<close> (fileScanner.ts)\<close>

definition isValidImageFile :: "platform \<Rightarrow> string \<Rightarrow> ScanOptions \<Rightarrow> bool" where
  "isValidImageFile env fileName options =
     (let ext = toLowerCase env (extname fileName) in ext \<in> set (fileTypes options))"

text \<open>\<^verbatim>\<open>if (!maxSize) return true\<close>: an absent bound and the bound \<open>0\<close> both answer true.\<close>

definition isValidSize :: "ImageMetadata \<Rightarrow> nat option \<Rightarrow> bool" where
  "isValidSize metadata maxSize' =
     (case maxSize' of
        None \<Rightarrow> True
      | Some m \<Rightarrow> (if m = 0 then True else size_bytes metadata \<le> m))"

definition getImageMetadata ::
  "platform \<Rightarrow> fpath \<Rightarrow> fpath \<Rightarrow> node \<Rightarrow> scan_state
     \<Rightarrow> (fs_error + ImageMetadata) \<times> scan_state" where
  "getImageMetadata env rootPath filePath f s =
     (case stat f of
        Inl e \<Rightarrow> (Inl e, io_log (StatCall filePath) s)
      | Inr stats \<Rightarrow>
          (case calculateFileHash env filePath f (io_log (StatCall filePath) s) of
             (Inl e, s') \<Rightarrow> (Inl e, s')
           | (Inr h, s') \<Rightarrow>
               (Inr \<lparr> path = relative rootPath filePath,
                      absolutePath = resolve filePath,
                      size_bytes = size_st stats,
                      hash = h,
                      created = birthtime stats,
                      modified = mtime stats \<rparr>, s')))"

text \<open>The loop over the entries of one directory is \<open>scanEntries\<close>; a thrown error is
  \<open>Inl\<close> and leaves the loop at once.\<close>

function
  scanDirectory :: "platform \<Rightarrow> fpath \<Rightarrow> ScanOptions \<Rightarrow> fpath \<Rightarrow> node \<Rightarrow> scan_state
     \<Rightarrow> (fs_error + unit) \<times> scan_state"
and
  scanEntries :: "platform \<Rightarrow> fpath \<Rightarrow> ScanOptions \<Rightarrow> fpath \<Rightarrow> (string \<times> node) list
     \<Rightarrow> scan_state \<Rightarrow> (fs_error + unit) \<times> scan_state"
where
  "scanDirectory env rootPath options dirPath d s =
     (case readdir d of
        Inl e \<Rightarrow> (Inl e, io_log (ReaddirCall dirPath) s)
      | Inr entries \<Rightarrow>
          scanEntries env rootPath options dirPath entries (io_log (ReaddirCall dirPath) s))"
| "scanEntries env rootPath options dirPath [] s = (Inr (), s)"
| "scanEntries env rootPath options dirPath (entry # rest) s =
     (let name = fst entry; e = snd entry; fullPath = join dirPath name in
      if isDirectory e \<and> recursive options then
        (case scanDirectory env rootPath options fullPath e s of
           (Inl err, s') \<Rightarrow> (Inl err, s')
         | (Inr _, s') \<Rightarrow> scanEntries env rootPath options dirPath rest s')
      else if isFile e \<and> isValidImageFile env name options then
        (case getImageMetadata env rootPath fullPath e s of
           (Inr metadata, s') \<Rightarrow>
             scanEntries env rootPath options dirPath rest
               (if isValidSize metadata (maxSize options) then push metadata s' else s')
         | (Inl err, s') \<Rightarrow>
             scanEntries env rootPath options dirPath rest
               (console_error (ErrorProcessingFile fullPath err) s'))
      else scanEntries env rootPath options dirPath rest s)"
  by pat_completeness auto
termination
  apply (relation "measure (\<lambda>x. case x of
          Inl (_, _, _, _, d, _) \<Rightarrow> 2 * size d + 1
        | Inr (_, _, _, _, es, _) \<Rightarrow> 2 * size_list (size_prod (\<lambda>_. 0) size) es + 2)")
        apply simp_all
  subgoal for d entries by (cases d) auto
  apply auto
  done

text \<open>What the caller of \<^verbatim>\<open>scan\<close> can observe: the array returned or the error thrown,
  the lines on \<^verbatim>\<open>console.error\<close>, and the file-system calls made.\<close>

record scan_run =
  returned :: "fs_error + ImageMetadata list"
  stderr :: "log_line list"
  calls :: "io_call list"

definition scan ::
  "platform \<Rightarrow> fpath \<Rightarrow> node \<Rightarrow> PartialScanOptions \<Rightarrow> scan_run" where
  "scan env rootPath root options =
     (let mergedOptions = mergeOptions defaultOptions options;
          s0 = \<lparr> results = [], console = [], io = [] \<rparr>
      in case scanDirectory env rootPath mergedOptions rootPath root s0 of
           (Inr _, s) \<Rightarrow> \<lparr> returned = Inr (results s), stderr = console s, calls = io s \<rparr>
         | (Inl e, s) \<Rightarrow>
             \<lparr> returned = Inl e,
               stderr = console s @ [ErrorScanningDirectory rootPath e],
               calls = io s \<rparr>)"

section \<open>The scanned tree, in traversal order\<close>

text \<open>
  \<open>walkDir\<close> lists what a depth-first walk below a directory meets, in the order of the
  listings: every directory listed, every directory whose listing fails, and every
  regular-file entry with its full path and its name. With \<open>rec = False\<close> the walk stays
  in the top directory. The walk does not stop at a failed listing; the scanner does.
\<close>

datatype visit = Listed fpath | Unlistable fpath fs_error | FileEntry fpath string node

function
  walkDir :: "bool \<Rightarrow> fpath \<Rightarrow> node \<Rightarrow> visit list"
and
  walkEntries :: "bool \<Rightarrow> fpath \<Rightarrow> (string \<times> node) list \<Rightarrow> visit list"
where
  "walkDir rec dirPath d =
     (case readdir d of
        Inl e \<Rightarrow> [Unlistable dirPath e]
      | Inr entries \<Rightarrow> Listed dirPath # walkEntries rec dirPath entries)"
| "walkEntries rec dirPath [] = []"
| "walkEntries rec dirPath (entry # rest) =
     (let name = fst entry; e = snd entry; fullPath = join dirPath name in
      (if isDirectory e then (if rec then walkDir rec fullPath e else [])
       else if isFile e then [FileEntry fullPath name e]
       else [])
      @ walkEntries rec dirPath rest)"
  by pat_completeness auto
termination
  apply (relation "measure (\<lambda>x. case x of
          Inl (_, _, d) \<Rightarrow> 2 * size d + 1
        | Inr (_, _, es) \<Rightarrow> 2 * size_list (size_prod (\<lambda>_. 0) size) es + 2)")
     apply simp_all
  subgoal for d entries by (cases d) auto
  apply auto
  done

fun isUnlistable :: "visit \<Rightarrow> bool" where
  "isUnlistable (Unlistable _ _) = True"
| "isUnlistable _ = False"

text \<open>A file system never lists the names \<^verbatim>\<open>.\<close> and \<^verbatim>\<open>..\<close>, an empty name or a name with a
  separator, and never lists a name twice in one directory.\<close>

definition validName :: "string \<Rightarrow> bool" where
  "validName n = (n \<noteq> [] \<and> n \<noteq> ''.'' \<and> n \<noteq> ''..'' \<and> CHR ''/'' \<notin> set n)"

text \<open>The segments that normalisation keeps as they are.\<close>

definition properSegment :: "string \<Rightarrow> bool" where
  "properSegment n = (n \<noteq> [] \<and> n \<noteq> ''.'' \<and> n \<noteq> ''..'')"

function
  wf_node :: "node \<Rightarrow> bool"
and
  wf_entries :: "(string \<times> node) list \<Rightarrow> bool"
where
  "wf_node d = (case readdir d of Inl e \<Rightarrow> True | Inr entries \<Rightarrow> distinct (map fst entries) \<and> wf_entries entries)"
| "wf_entries [] = True"
| "wf_entries (entry # rest) = (validName (fst entry) \<and> wf_node (snd entry) \<and> wf_entries rest)"
  by pat_completeness auto
termination
  apply (relation "measure (\<lambda>x. case x of
          Inl d \<Rightarrow> 2 * size d + 1
        | Inr es \<Rightarrow> 2 * size_list (size_prod (\<lambda>_. 0) size) es + 2)")
     apply simp_all
  subgoal for d entries by (cases d) auto
  subgoal for entry rest by (cases entry) auto
  done

subsection \<open>The scanner as a replay of the walk\<close>

text \<open>What the loop body does with one regular-file entry.\<close>

definition processFile ::
  "platform \<Rightarrow> fpath \<Rightarrow> ScanOptions \<Rightarrow> fpath \<Rightarrow> string \<Rightarrow> node \<Rightarrow> scan_state
     \<Rightarrow> scan_state" where
  "processFile env rootPath options fullPath name f s =
     (if isValidImageFile env name options then
        (case getImageMetadata env rootPath fullPath f s of
           (Inr metadata, s') \<Rightarrow>
             (if isValidSize metadata (maxSize options) then push metadata s' else s')
         | (Inl err, s') \<Rightarrow> console_error (ErrorProcessingFile fullPath err) s')
      else s)"

fun replay ::
  "platform \<Rightarrow> fpath \<Rightarrow> ScanOptions \<Rightarrow> visit list \<Rightarrow> scan_state
     \<Rightarrow> (fs_error + unit) \<times> scan_state" where
  "replay env rootPath options [] s = (Inr (), s)"
| "replay env rootPath options (Listed p # vs) s =
     replay env rootPath options vs (io_log (ReaddirCall p) s)"
| "replay env rootPath options (Unlistable p e # vs) s = (Inl e, io_log (ReaddirCall p) s)"
| "replay env rootPath options (FileEntry p name f # vs) s =
     replay env rootPath options vs (processFile env rootPath options p name f s)"

text \<open>The scanner stops at the first listing that fails: \<open>performed\<close> is the part of a
  walk up to and including it, \<open>firstError\<close> what is thrown.\<close>

fun performed :: "visit list \<Rightarrow> visit list" where
  "performed [] = []"
| "performed (v # vs) = (if isUnlistable v then [v] else v # performed vs)"

fun firstError :: "visit list \<Rightarrow> fs_error + unit" where
  "firstError [] = Inr ()"
| "firstError (Unlistable p e # vs) = Inl e"
| "firstError (Listed p # vs) = firstError vs"
| "firstError (FileEntry p name f # vs) = firstError vs"

text \<open>What \<^verbatim>\<open>getImageMetadata\<close> answers for a file, apart from the calls it logs.\<close>

definition metadataOf ::
  "platform \<Rightarrow> fpath \<Rightarrow> fpath \<Rightarrow> node \<Rightarrow> fs_error + ImageMetadata" where
  "metadataOf env rootPath filePath f =
     fst (getImageMetadata env rootPath filePath f \<lparr> results = [], console = [], io = [] \<rparr>)"

text \<open>The record, the diagnostic and the file-system calls that one step of the walk
  contributes.\<close>

fun recordOf ::
  "platform \<Rightarrow> fpath \<Rightarrow> ScanOptions \<Rightarrow> visit \<Rightarrow> ImageMetadata option" where
  "recordOf env rootPath options (FileEntry p name f) =
     (if isValidImageFile env name options then
        (case metadataOf env rootPath p f of
           Inr metadata \<Rightarrow> (if isValidSize metadata (maxSize options) then Some metadata else None)
         | Inl err \<Rightarrow> None)
      else None)"
| "recordOf env rootPath options v = None"

fun diagOf ::
  "platform \<Rightarrow> fpath \<Rightarrow> ScanOptions \<Rightarrow> visit \<Rightarrow> log_line option" where
  "diagOf env rootPath options (FileEntry p name f) =
     (if isValidImageFile env name options then
        (case metadataOf env rootPath p f of
           Inr metadata \<Rightarrow> None
         | Inl err \<Rightarrow> Some (ErrorProcessingFile p err))
      else None)"
| "diagOf env rootPath options v = None"

fun callsOf :: "platform \<Rightarrow> ScanOptions \<Rightarrow> visit \<Rightarrow> io_call list" where
  "callsOf env options (Listed p) = [ReaddirCall p]"
| "callsOf env options (Unlistable p e) = [ReaddirCall p]"
| "callsOf env options (FileEntry p name f) =
     (if isValidImageFile env name options then
        (case stat f of Inl e \<Rightarrow> [StatCall p] | Inr st \<Rightarrow> [StatCall p, ReadStreamCall p])
      else [])"

text \<open>The path of a regular-file entry of the walk.\<close>

fun filePath :: "visit \<Rightarrow> fpath option" where
  "filePath (FileEntry p name f) = Some p"
| "filePath v = None"

text \<open>The options a scan works with: the defaults overlaid with what the caller gave.\<close>

abbreviation mergedOptions :: "PartialScanOptions \<Rightarrow> ScanOptions" where
  "mergedOptions options \<equiv> mergeOptions defaultOptions options"

text \<open>The walk that a scan of \<open>root\<close> with the given options follows.\<close>

abbreviation scanWalk :: "fpath \<Rightarrow> node \<Rightarrow> PartialScanOptions \<Rightarrow> visit list" where
  "scanWalk rootPath root options \<equiv> walkDir (recursive (mergedOptions options)) rootPath root"

section \<open>The options as the caller states them\<close>

text \<open>
  The filters in the words of the specification, read off the options that the caller
  passes and not off what the scanner makes of them: the walk descends unless
  \<open>recursive\<close> is given as false; the extensions are the ones given, or the built-in ones
  when none are given; the bound is the one given.
\<close>

definition requestedRecursive :: "PartialScanOptions \<Rightarrow> bool" where
  "requestedRecursive options = (case opt_recursive options of None \<Rightarrow> True | Some b \<Rightarrow> b)"

definition requestedFileTypes :: "PartialScanOptions \<Rightarrow> string list" where
  "requestedFileTypes options =
     (case opt_fileTypes options of
        None \<Rightarrow> [''.jpg'', ''.jpeg'', ''.png'', ''.gif'', ''.webp'', ''.bmp'', ''.tiff'']
      | Some ts \<Rightarrow> ts)"

definition withinRequestedSize :: "PartialScanOptions \<Rightarrow> nat \<Rightarrow> bool" where
  "withinRequestedSize options n = (case opt_maxSize options of None \<Rightarrow> True | Some m \<Rightarrow> n \<le> m)"

abbreviation requestedWalk :: "fpath \<Rightarrow> node \<Rightarrow> PartialScanOptions \<Rightarrow> visit list" where
  "requestedWalk rootPath root options \<equiv> walkDir (requestedRecursive options) rootPath root"

text \<open>A file is readable when \<^verbatim>\<open>stat\<close> answers for it and its read stream ends without
  error.\<close>

fun readable :: "node \<Rightarrow> bool" where
  "readable (RegularFile (Inr st) bs None) = True"
| "readable f = False"

text \<open>A file entry matches the filters when its lower-cased extension is one of the
  requested ones, it is readable and its size is within the requested bound; its
  extraction fails when its extension is one of the requested ones and it is not
  readable.\<close>

fun matchesFilters :: "platform \<Rightarrow> PartialScanOptions \<Rightarrow> visit \<Rightarrow> bool" where
  "matchesFilters env options (FileEntry p name (RegularFile (Inr st) bs None)) =
     (toLowerCase env (extname name) \<in> set (requestedFileTypes options) \<and>
      withinRequestedSize options (size_st st))"
| "matchesFilters env options v = False"

fun failsExtraction :: "platform \<Rightarrow> PartialScanOptions \<Rightarrow> visit \<Rightarrow> bool" where
  "failsExtraction env options (FileEntry p name f) =
     (toLowerCase env (extname name) \<in> set (requestedFileTypes options) \<and> \<not> readable f)"
| "failsExtraction env options v = False"

section \<open>Sample inputs\<close>

text \<open>Concrete inputs on which the theorems below are instantiated. The sample platform
  lower-cases the letters \<^verbatim>\<open>A-Z\<close>, which is what JavaScript does to a string of ASCII
  characters, and its digest under every algorithm is the length of the input followed
  by its bytes in reverse. A readable file reports the length of its content as its
  size.\<close>

definition asciiLowerChar :: "char \<Rightarrow> char" where
  "asciiLowerChar c =
     (case map_of (zip ''ABCDEFGHIJKLMNOPQRSTUVWXYZ'' ''abcdefghijklmnopqrstuvwxyz'') c of
        Some l \<Rightarrow> l
      | None \<Rightarrow> c)"

definition asciiLowerCase :: "string \<Rightarrow> string" where
  "asciiLowerCase s = map asciiLowerChar s"

definition sampleDigest :: "string \<Rightarrow> byte list \<Rightarrow> byte list" where
  "sampleDigest algorithm bs = of_nat (length bs) # rev bs"

definition samplePlatform :: platform where
  "samplePlatform = \<lparr> toLowerCase = asciiLowerCase, digestOf = sampleDigest \<rparr>"

definition plainFile :: "byte list \<Rightarrow> node" where
  "plainFile bs =
     RegularFile (Inr \<lparr> size_st = length bs, birthtime = 1000, mtime = 2000 \<rparr>) bs None"

definition noOptions :: PartialScanOptions where
  "noOptions =
     \<lparr> opt_recursive = None, opt_includeZips = None, opt_fileTypes = None, opt_maxSize = None \<rparr>"

text \<open>The scenario of the specification, with shorter files: \<^verbatim>\<open>a.jpg\<close> (3 bytes),
  \<^verbatim>\<open>b.png\<close> (5 bytes), \<^verbatim>\<open>c.txt\<close> (1 byte) and \<^verbatim>\<open>d/e.GIF\<close> (2 bytes), scanned for
  \<^verbatim>\<open>.jpg\<close>, \<^verbatim>\<open>.png\<close> and \<^verbatim>\<open>.gif\<close> files of at most 4 bytes.\<close>

definition sampleTree :: node where
  "sampleTree = Directory (Inr
     [(''a.jpg'', plainFile [1, 2, 3]),
      (''b.png'', plainFile [4, 5, 6, 7, 8]),
      (''c.txt'', plainFile [9]),
      (''d'', Directory (Inr [(''e.GIF'', plainFile [255, 16])]))])"

definition sampleOptions :: PartialScanOptions where
  "sampleOptions =
     \<lparr> opt_recursive = None, opt_includeZips = None,
       opt_fileTypes = Some [''.jpg'', ''.png'', ''.gif''], opt_maxSize = Some 4 \<rparr>"

text \<open>A directory with an unreadable file between readable ones: \<^verbatim>\<open>locked.png\<close> can be
  statted but not opened.\<close>

definition lockedFileTree :: node where
  "lockedFileTree = Directory (Inr
     [(''a.jpg'', plainFile [1, 2, 3]),
      (''locked.png'',
         RegularFile (Inr \<lparr> size_st = 7, birthtime = 1000, mtime = 2000 \<rparr>) [] (Some EACCES)),
      (''z.gif'', plainFile [])])"

text \<open>A directory with one image and a subdirectory that may not be listed.\<close>

definition lockedDirTree :: node where
  "lockedDirTree = Directory (Inr
     [(''a.jpg'', plainFile [1, 2, 3]),
      (''private'', Directory (Inl EACCES)),
      (''z.gif'', plainFile [])])"

section \<open>The scanner walks the tree\<close>

lemma replay_append:
  "replay env rootPath options (xs @ ys) s =
     (case replay env rootPath options xs s of
        (Inl e, s') \<Rightarrow> (Inl e, s')
      | (Inr u, s') \<Rightarrow> replay env rootPath options ys s')"
  by (induction env rootPath options xs s rule: replay.induct) simp_all

lemma scan_replay:
  "scanDirectory env rootPath options dirPath d s =
     replay env rootPath options (walkDir (recursive options) dirPath d) s"
  "scanEntries env rootPath options dirPath es s =
     replay env rootPath options (walkEntries (recursive options) dirPath es) s"
proof (induction env rootPath options dirPath d s and env rootPath options dirPath es s
       rule: scanDirectory_scanEntries.induct)
  case (1 env rootPath options dirPath d s)
  then show ?case by (simp split: sum.splits)
next
  case (2 env rootPath options dirPath s)
  then show ?case by simp
next
  case (3 env rootPath options dirPath entry rest s)
  obtain name e where entry: "entry = (name, e)" by (cases entry)
  show ?case
  proof (cases e)
    case (RegularFile st bs err)
    with 3 entry show ?thesis
      by (simp add: processFile_def Let_def split: prod.splits sum.splits)
  next
    case (Directory l)
    with 3 entry show ?thesis
      by (simp add: replay_append Let_def split: prod.splits sum.splits
               del: scanDirectory.simps walkDir.simps)
  next
    case Special
    with 3 entry show ?thesis by (simp add: Let_def)
  qed
qed

lemma getImageMetadata_eq:
  "getImageMetadata env rootPath p f s =
     (metadataOf env rootPath p f,
      s\<lparr>io := io s @ (case stat f of Inl e \<Rightarrow> [StatCall p] | Inr st \<Rightarrow> [StatCall p, ReadStreamCall p])\<rparr>)"
  by (simp add: metadataOf_def getImageMetadata_def calculateFileHash_def io_log_def Let_def
           split: sum.splits prod.splits option.splits)

lemma processFile_eq:
  "processFile env rootPath options p name f s =
     s\<lparr> results := results s @ (case recordOf env rootPath options (FileEntry p name f) of None \<Rightarrow> [] | Some m \<Rightarrow> [m]),
        console := console s @ (case diagOf env rootPath options (FileEntry p name f) of None \<Rightarrow> [] | Some l \<Rightarrow> [l]),
        io := io s @ callsOf env options (FileEntry p name f) \<rparr>"
  by (simp add: processFile_def getImageMetadata_eq push_def console_error_def
           split: sum.splits)

lemma replay_eq:
  "replay env rootPath options vs s =
     (firstError vs,
      s\<lparr> results := results s @ List.map_filter (recordOf env rootPath options) (performed vs),
         console := console s @ List.map_filter (diagOf env rootPath options) (performed vs),
         io := io s @ concat (map (callsOf env options) (performed vs)) \<rparr>)"
proof (induction env rootPath options vs s rule: replay.induct)
  case (1 env rootPath options s)
  show ?case by (simp add: List.map_filter_simps)
next
  case (2 env rootPath options p vs s)
  then show ?case by (simp add: List.map_filter_simps io_log_def)
next
  case (3 env rootPath options p e vs s)
  show ?case by (simp add: List.map_filter_simps io_log_def)
next
  case (4 env rootPath options p name f vs s)
  then show ?case
    by (simp add: List.map_filter_simps processFile_eq split: option.splits)
qed

lemma scan_eq:
  "scan env rootPath root options =
     (let mo = mergeOptions defaultOptions options;
          w = walkDir (recursive mo) rootPath root
      in \<lparr> returned = (case firstError w of
                          Inr u \<Rightarrow> Inr (List.map_filter (recordOf env rootPath mo) (performed w))
                        | Inl e \<Rightarrow> Inl e),
           stderr = List.map_filter (diagOf env rootPath mo) (performed w)
                      @ (case firstError w of Inr u \<Rightarrow> [] | Inl e \<Rightarrow> [ErrorScanningDirectory rootPath e]),
           calls = concat (map (callsOf env mo) (performed w)) \<rparr>)"
  by (simp add: scan_def scan_replay replay_eq Let_def split: sum.splits del: scanDirectory.simps walkDir.simps)

subsection \<open>Paths\<close>

lemma validName_proper: "validName n \<Longrightarrow> properSegment n"
  by (simp add: validName_def properSegment_def)

lemma list_all_validName_proper: "list_all validName ns \<Longrightarrow> list_all properSegment ns"
  by (induction ns) (simp_all add: validName_proper)

lemma normalizeStep_valid: "properSegment n \<Longrightarrow> normalizeStep acc n = acc @ [n]"
  by (auto simp: normalizeStep_def properSegment_def)

lemma foldl_normalizeStep_valid:
  "list_all properSegment ns \<Longrightarrow> foldl normalizeStep acc ns = acc @ ns"
  by (induction ns arbitrary: acc) (simp_all add: normalizeStep_valid)

lemma normalize_append_valid:
  "list_all properSegment ns \<Longrightarrow> normalize (p @ ns) = normalize p @ ns"
  by (simp add: normalize_def foldl_normalizeStep_valid)

lemma normalizeStep_keeps_valid:
  "list_all properSegment acc \<Longrightarrow> list_all properSegment (normalizeStep acc seg)"
  by (cases acc rule: rev_cases) (auto simp: normalizeStep_def properSegment_def)

lemma foldl_normalizeStep_keeps_valid:
  "list_all properSegment acc \<Longrightarrow> list_all properSegment (foldl normalizeStep acc p)"
  by (induction p arbitrary: acc) (simp_all add: normalizeStep_keeps_valid)

lemma normalize_valid: "list_all properSegment (normalize p)"
  by (simp add: normalize_def foldl_normalizeStep_keeps_valid)

lemma normalize_idem: "normalize (normalize p) = normalize p"
  using foldl_normalizeStep_valid [OF normalize_valid, of "[]" p] by (simp add: normalize_def)

lemma join_valid: "properSegment n \<Longrightarrow> join d n = normalize d @ [n]"
  using normalize_append_valid [of "[n]" d] by (simp add: join_def)

lemma relativeSegs_prefix: "relativeSegs p (p @ ns) = ns"
proof (induction p)
  case Nil
  show ?case by (cases ns) simp_all
next
  case (Cons a p)
  then show ?case by simp
qed

lemma relative_below:
  "list_all properSegment ns \<Longrightarrow> relative rootPath (normalize rootPath @ ns) = ns"
  by (simp add: relative_def resolve_def normalize_append_valid normalize_idem relativeSegs_prefix)

subsection \<open>Hashing\<close>

lemma concat_chunksOf: "0 < n \<Longrightarrow> concat (chunksOf n xs) = xs"
proof (induction n xs rule: chunksOf.induct)
  case (1 n)
  show ?case by simp
next
  case (2 n x xs)
  then show ?case by (simp del: take.simps drop.simps)
qed

lemma chunksOf_bounded: "c \<in> set (chunksOf n xs) \<Longrightarrow> c \<noteq> [] \<and> length c \<le> n"
proof (induction n xs rule: chunksOf.induct)
  case (1 n)
  then show ?case by simp
next
  case (2 n x xs)
  then show ?case by (cases n) (auto split: if_splits)
qed

lemma foldl_update: "foldl update h cs = (fst h, snd h @ concat cs)"
  by (induction cs arbitrary: h) (simp_all add: update_def)

lemma calculateFileHash_ok:
  "calculateFileHash env p (RegularFile st bs None) s =
     (Inr (hex (digestOf env ''sha256'' bs)), io_log (ReadStreamCall p) s)"
  by (simp add: calculateFileHash_def foldl_update concat_chunksOf createHash_def digest_hex_def
           del: chunksOf.simps)

lemma hexDigit_lower: "hexDigit n \<in> set hexDigits"
  unfolding hexDigit_def by (rule nth_mem) (simp add: hexDigits_def)

lemma hex_lower: "c \<in> set (hex bs) \<Longrightarrow> c \<in> set hexDigits"
proof -
  assume "c \<in> set (hex bs)"
  then obtain b where "c \<in> set (hexByte b)"
    by (auto simp: hex_def)
  then have "c = hexDigit (unat b div 16) \<or> c = hexDigit (unat b mod 16)"
    by (simp add: hexByte_def)
  then show ?thesis
    using hexDigit_lower by blast
qed

lemma length_hex: "length (hex bs) = 2 * length bs"
  by (induction bs) (simp_all add: hex_def hexByte_def)

lemma metadataOf_ok:
  "metadataOf env rootPath p (RegularFile (Inr st) bs None) =
     Inr \<lparr> path = relative rootPath p, absolutePath = resolve p, size_bytes = size_st st,
           hash = hex (digestOf env ''sha256'' bs), created = birthtime st, modified = mtime st \<rparr>"
  by (simp add: metadataOf_def getImageMetadata_def calculateFileHash_ok)

lemma metadataOf_stat_fails:
  "metadataOf env rootPath p (RegularFile (Inl e) bs err) = Inl e"
  by (simp add: metadataOf_def getImageMetadata_def)

lemma metadataOf_read_fails:
  "metadataOf env rootPath p (RegularFile (Inr st) bs (Some e)) = Inl e"
  by (simp add: metadataOf_def getImageMetadata_def calculateFileHash_def Let_def split: prod.splits)

lemma metadataOf_Inr:
  "metadataOf env rootPath p f = Inr m \<Longrightarrow>
     path m = relative rootPath p \<and> absolutePath m = resolve p"
  by (auto simp: metadataOf_def getImageMetadata_def split: sum.splits prod.splits)

subsection \<open>Where the walk finds files\<close>

lemma normalize_join:
  "properSegment m \<Longrightarrow> normalize (join dirPath m) = normalize dirPath @ [m]"
  by (simp add: join_valid normalize_append_valid normalize_idem)

lemma walk_file_below:
  "wf_node d \<Longrightarrow> FileEntry p n f \<in> set (walkDir rec dirPath d) \<Longrightarrow>
     \<exists>ns. p = normalize dirPath @ ns \<and> ns \<noteq> [] \<and> list_all validName ns \<and> last ns = n"
  "wf_entries es \<Longrightarrow> FileEntry p n f \<in> set (walkEntries rec dirPath es) \<Longrightarrow>
     \<exists>ns. p = normalize dirPath @ ns \<and> ns \<noteq> [] \<and> list_all validName ns \<and> last ns = n
          \<and> hd ns \<in> fst ` set es \<and> (rec \<or> length ns = 1)"
proof (induction rec dirPath d and rec dirPath es arbitrary: p n f and p n f
       rule: walkDir_walkEntries.induct)
  case (1 rec dirPath d)
  from "1.prems" obtain entries where l: "readdir d = Inr entries"
    and w: "wf_entries entries" and m: "FileEntry p n f \<in> set (walkEntries rec dirPath entries)"
    by (auto split: sum.splits)
  from "1.IH" [OF l w m] show ?case by blast
next
  case (2 rec dirPath)
  then show ?case by simp
next
  case (3 rec dirPath entry rest)
  obtain m e where entry: "entry = (m, e)" by (cases entry)
  from "3.prems" entry have vm: "validName m" and we: "wf_node e" and wr: "wf_entries rest"
    by simp_all
  have pm: "properSegment m" using vm by (rule validName_proper)
  note IH = "3.IH" [unfolded entry fst_conv snd_conv]
  from "3.prems"(2) entry consider
      (sub) "isDirectory e" "rec" "FileEntry p n f \<in> set (walkDir rec (join dirPath m) e)"
    | (here) "isFile e" "p = join dirPath m" "n = m"
    | (later) "FileEntry p n f \<in> set (walkEntries rec dirPath rest)"
    by (auto simp: Let_def split: if_splits simp del: walkDir.simps)
  then show ?case
  proof cases
    case sub
    from IH(1) [OF refl refl refl sub(1) sub(2) we sub(3)]
    obtain ns where ns: "p = normalize (join dirPath m) @ ns" "ns \<noteq> []"
        "list_all validName ns" "last ns = n"
      by auto
    have "p = normalize dirPath @ (m # ns)" using ns(1) pm by (simp add: normalize_join)
    moreover have "list_all validName (m # ns)" using vm ns(3) by simp
    moreover have "last (m # ns) = n" using ns(2,4) by simp
    moreover have "hd (m # ns) \<in> fst ` set (entry # rest)" using entry by simp
    ultimately show ?thesis using sub(2) by blast
  next
    case here
    have "p = normalize dirPath @ [m]" using here pm by (simp add: join_valid)
    moreover have "hd [m] \<in> fst ` set (entry # rest)" using entry by simp
    ultimately show ?thesis using vm here(3)
      by (intro exI [of _ "[m]"]) simp
  next
    case later
    from IH(2) [OF refl refl refl wr later]
    obtain ns where ns: "p = normalize dirPath @ ns" "ns \<noteq> []" "list_all validName ns"
        "last ns = n" "hd ns \<in> fst ` set rest" "rec \<or> length ns = 1"
      by blast
    then show ?thesis by auto
  qed
qed

lemma map_filter_append:
  "List.map_filter g (xs @ ys) = List.map_filter g xs @ List.map_filter g ys"
  by (simp add: List.map_filter_def)

lemma map_filter_Cons:
  "List.map_filter g (x # xs) = (case g x of None \<Rightarrow> [] | Some y \<Rightarrow> [y]) @ List.map_filter g xs"
  by (simp add: List.map_filter_simps split: option.splits)

lemma set_map_filter: "set (List.map_filter g xs) = {y. \<exists>x\<in>set xs. g x = Some y}"
  by (induction xs) (auto simp: List.map_filter_simps split: option.splits)

lemma filter_unique:
  "distinct (List.map_filter g xs) \<Longrightarrow> x \<in> set xs \<Longrightarrow> g x = Some y \<Longrightarrow>
     filter (\<lambda>z. g z = Some y) xs = [x]"
proof (induction xs)
  case Nil
  then show ?case by simp
next
  case (Cons a xs)
  show ?case
  proof (cases "g a = Some y")
    case True
    with Cons.prems(1) have notin: "y \<notin> set (List.map_filter g xs)"
      by (simp add: List.map_filter_simps)
    then have none: "\<forall>z\<in>set xs. g z \<noteq> Some y"
      by (auto simp: set_map_filter)
    with Cons.prems(2,3) have "x = a" by auto
    moreover from none have "filter (\<lambda>z. g z = Some y) xs = []"
      by (simp add: filter_empty_conv)
    ultimately show ?thesis using True by simp
  next
    case False
    with Cons.prems have "x \<in> set xs" by auto
    moreover from Cons.prems(1) have "distinct (List.map_filter g xs)"
      by (simp add: List.map_filter_simps split: option.splits)
    ultimately show ?thesis using Cons.IH Cons.prems(3) False by simp
  qed
qed

lemma filePath_Some: "filePath v = Some p \<longleftrightarrow> (\<exists>n f. v = FileEntry p n f)"
  by (cases v) auto

lemma walk_distinct:
  "wf_node d \<Longrightarrow> distinct (List.map_filter filePath (walkDir rec dirPath d))"
  "wf_entries es \<Longrightarrow> distinct (map fst es) \<Longrightarrow>
     distinct (List.map_filter filePath (walkEntries rec dirPath es))"
proof (induction rec dirPath d and rec dirPath es rule: walkDir_walkEntries.induct)
  case (1 rec dirPath d)
  then show ?case
    by (auto simp: List.map_filter_simps split: sum.splits)
next
  case (2 rec dirPath)
  then show ?case by (simp add: List.map_filter_simps)
next
  case (3 rec dirPath entry rest)
  obtain m e where entry: "entry = (m, e)" by (cases entry)
  from "3.prems" entry have vm: "validName m" and we: "wf_node e" and wr: "wf_entries rest"
    and dr: "distinct (map fst rest)" and fresh: "m \<notin> fst ` set rest"
    by simp_all
  have pm: "properSegment m" using vm by (rule validName_proper)
  note IH = "3.IH" [unfolded entry fst_conv snd_conv]
  let ?first = "if isDirectory e then (if rec then walkDir rec (join dirPath m) e else [])
                else if isFile e then [FileEntry (join dirPath m) m e] else []"
  have split: "walkEntries rec dirPath (entry # rest) = ?first @ walkEntries rec dirPath rest"
    using entry by (simp add: Let_def del: walkDir.simps)
  have d1: "distinct (List.map_filter filePath ?first)"
    using IH(1) [OF refl refl refl _ _ we]
    by (auto simp: List.map_filter_simps simp del: walkDir.simps)
  have d2: "distinct (List.map_filter filePath (walkEntries rec dirPath rest))"
    using IH(2) [OF refl refl refl wr dr] .
  have first_hd: "\<exists>ns. p = normalize dirPath @ m # ns"
    if "FileEntry p n f \<in> set ?first" for p n f
  proof (cases "isDirectory e")
    case True
    with that have "rec" and "FileEntry p n f \<in> set (walkDir rec (join dirPath m) e)"
      by (auto split: if_splits simp del: walkDir.simps)
    from walk_file_below(1) [OF we this(2)] pm show ?thesis
      by (auto simp: normalize_join)
  next
    case False
    with that have "p = join dirPath m" by (auto split: if_splits)
    then show ?thesis using pm by (simp add: join_valid)
  qed
  have disj: "set (List.map_filter filePath ?first)
                \<inter> set (List.map_filter filePath (walkEntries rec dirPath rest)) = {}"
  proof (rule ccontr)
    assume "\<not> ?thesis"
    then obtain p where p1: "p \<in> set (List.map_filter filePath ?first)"
      and p2: "p \<in> set (List.map_filter filePath (walkEntries rec dirPath rest))"
      by blast
    from p1 obtain n f where "FileEntry p n f \<in> set ?first"
      unfolding set_map_filter by (auto simp: filePath_Some)
    from first_hd [OF this] obtain ns where a: "p = normalize dirPath @ m # ns" ..
    from p2 obtain n' f' where "FileEntry p n' f' \<in> set (walkEntries rec dirPath rest)"
      unfolding set_map_filter by (auto simp: filePath_Some)
    from walk_file_below(2) [OF wr this] obtain ns' where
      b: "p = normalize dirPath @ ns'" "ns' \<noteq> []" "hd ns' \<in> fst ` set rest"
      by blast
    from a b(1) have "ns' = m # ns" by simp
    with b(3) fresh show False by simp
  qed
  show ?case
    unfolding split map_filter_append using d1 d2 disj by simp
qed

lemma firstError_append:
  "firstError (xs @ ys) = (case firstError xs of Inl e \<Rightarrow> Inl e | Inr u \<Rightarrow> firstError ys)"
  by (induction xs rule: firstError.induct) simp_all

lemma firstError_Inr_iff: "firstError vs = Inr u \<longleftrightarrow> (\<forall>v\<in>set vs. \<not> isUnlistable v)"
  by (induction vs rule: firstError.induct) simp_all

lemma performed_all: "firstError vs = Inr u \<Longrightarrow> performed vs = vs"
  by (induction vs rule: firstError.induct) simp_all

lemma firstError_Inl_mem: "firstError vs = Inl e \<Longrightarrow> \<exists>p. Unlistable p e \<in> set vs"
  by (induction vs rule: firstError.induct) auto

lemma firstError_fails: "Unlistable p e \<in> set vs \<Longrightarrow> \<exists>e'. firstError vs = Inl e'"
  by (induction vs rule: firstError.induct) auto

lemma set_performed: "set (performed vs) \<subseteq> set vs"
  by (induction vs) auto

subsection \<open>What a successful scan returns\<close>

lemma returned_Inr:
  assumes "returned (scan env rootPath root options) = Inr out"
  defines "mo \<equiv> mergeOptions defaultOptions options"
  defines "w \<equiv> walkDir (recursive mo) rootPath root"
  shows "firstError w = Inr ()" and "out = List.map_filter (recordOf env rootPath mo) w"
proof -
  from assms(1) show fe: "firstError w = Inr ()"
    by (simp add: scan_eq Let_def mo_def w_def split: sum.splits del: walkDir.simps)
  from assms(1) fe show "out = List.map_filter (recordOf env rootPath mo) w"
    by (simp add: scan_eq Let_def mo_def w_def performed_all del: walkDir.simps)
qed

lemma walk_file_normal:
  assumes "wf_node root" "FileEntry p n f \<in> set (walkDir rec rootPath root)"
  shows "resolve p = p" and "\<exists>ns. relative rootPath p = ns \<and> p = normalize rootPath @ ns
            \<and> ns \<noteq> [] \<and> list_all validName ns \<and> last ns = n"
proof -
  from walk_file_below(1) [OF assms] obtain ns where
    ns: "p = normalize rootPath @ ns" "ns \<noteq> []" "list_all validName ns" "last ns = n"
    by blast
  have pr: "list_all properSegment ns" using ns(3) by (rule list_all_validName_proper)
  show "resolve p = p"
    using ns(1) pr by (simp add: resolve_def normalize_append_valid normalize_idem)
  show "\<exists>ns. relative rootPath p = ns \<and> p = normalize rootPath @ ns
            \<and> ns \<noteq> [] \<and> list_all validName ns \<and> last ns = n"
    using ns pr by (simp add: relative_below)
qed

lemma recordOf_Some:
  "recordOf env rootPath mo v = Some r \<Longrightarrow>
     \<exists>p n f. v = FileEntry p n f \<and> isValidImageFile env n mo \<and> metadataOf env rootPath p f = Inr r
        \<and> isValidSize r (maxSize mo) \<and> path r = relative rootPath p \<and> absolutePath r = resolve p"
  by (cases v) (auto split: if_splits sum.splits dest: metadataOf_Inr)

lemma filter_map_filter:
  "(\<And>x y. x \<in> set xs \<Longrightarrow> g x = Some y \<Longrightarrow> P y = Q x) \<Longrightarrow>
     filter P (List.map_filter g xs) = List.map_filter g (filter Q xs)"
  by (induction xs) (auto simp: List.map_filter_simps split: option.splits)

lemma firstError_Inl:
  "firstError vs = Inl e \<Longrightarrow>
     \<exists>pre p post. vs = pre @ Unlistable p e # post \<and> (\<forall>v\<in>set pre. \<not> isUnlistable v)"
proof (induction vs rule: firstError.induct)
  case 1
  then show ?case by simp
next
  case (2 p e' vs)
  then have "Unlistable p e' # vs = [] @ Unlistable p e # vs \<and> (\<forall>v\<in>set []. \<not> isUnlistable v)"
    by simp
  then show ?case by blast
next
  case (3 q vs)
  then obtain pre p post where
    "vs = pre @ Unlistable p e # post" "\<forall>v\<in>set pre. \<not> isUnlistable v"
    by auto
  then have "Listed q # vs = (Listed q # pre) @ Unlistable p e # post
      \<and> (\<forall>v\<in>set (Listed q # pre). \<not> isUnlistable v)"
    by simp
  then show ?case by blast
next
  case (4 q n f vs)
  then obtain pre p post where
    "vs = pre @ Unlistable p e # post" "\<forall>v\<in>set pre. \<not> isUnlistable v"
    by auto
  then have "FileEntry q n f # vs = (FileEntry q n f # pre) @ Unlistable p e # post
      \<and> (\<forall>v\<in>set (FileEntry q n f # pre). \<not> isUnlistable v)"
    by simp
  then show ?case by blast
qed

lemma length_map_filter:
  "length (List.map_filter g xs) = length (filter (\<lambda>x. g x \<noteq> None) xs)"
  by (simp add: List.map_filter_def)

lemma returned_eq:
  "returned (scan env rootPath root options) =
     (case firstError (walkDir (recursive (mergedOptions options)) rootPath root) of
        Inr u \<Rightarrow> Inr (List.map_filter (recordOf env rootPath (mergedOptions options))
                       (performed (walkDir (recursive (mergedOptions options)) rootPath root)))
      | Inl e \<Rightarrow> Inl e)"
  by (simp add: scan_eq Let_def del: walkDir.simps)

lemma stderr_eq:
  "stderr (scan env rootPath root options) =
     List.map_filter (diagOf env rootPath (mergedOptions options))
        (performed (walkDir (recursive (mergedOptions options)) rootPath root))
     @ (case firstError (walkDir (recursive (mergedOptions options)) rootPath root) of
          Inr u \<Rightarrow> []
        | Inl e \<Rightarrow> [ErrorScanningDirectory rootPath e])"
  by (simp add: scan_eq Let_def del: walkDir.simps)

lemma calls_eq:
  "calls (scan env rootPath root options) =
     concat (map (callsOf env (mergedOptions options))
        (performed (walkDir (recursive (mergedOptions options)) rootPath root)))"
  by (simp add: scan_eq Let_def del: walkDir.simps)

lemma walk_same_path_same_name:
  assumes "wf_node root"
    and "FileEntry p n f \<in> set (walkDir rec rootPath root)"
    and "FileEntry p n' f' \<in> set (walkDir rec rootPath root)"
  shows "n' = n \<and> f' = f"
proof -
  let ?w = "walkDir rec rootPath root"
  have "filter (\<lambda>v. filePath v = Some p) ?w = [FileEntry p n f]"
    by (rule filter_unique [OF walk_distinct(1) [OF assms(1)] assms(2)]) simp
  moreover have "filter (\<lambda>v. filePath v = Some p) ?w = [FileEntry p n' f']"
    by (rule filter_unique [OF walk_distinct(1) [OF assms(1)] assms(3)]) simp
  ultimately show ?thesis by simp
qed

lemma diagOf_Some:
  "diagOf env rootPath mo v = Some l \<Longrightarrow>
     \<exists>p n f e. v = FileEntry p n f \<and> isValidImageFile env n mo
        \<and> metadataOf env rootPath p f = Inl e \<and> l = ErrorProcessingFile p e"
  by (cases v) (auto split: if_splits sum.splits)

lemma callsOf_file:
  "StatCall p \<in> set (callsOf env mo v) \<or> ReadStreamCall p \<in> set (callsOf env mo v) \<Longrightarrow>
     \<exists>n f. v = FileEntry p n f \<and> isValidImageFile env n mo"
  by (cases v) (auto split: if_splits sum.splits)

lemma scan_touches_only_valid_files:
  assumes wf: "wf_node root"
    and touched: "StatCall p \<in> set (calls (scan env rootPath root options))
       \<or> ReadStreamCall p \<in> set (calls (scan env rootPath root options))
       \<or> ErrorProcessingFile p e \<in> set (stderr (scan env rootPath root options))
       \<or> (\<exists>out. returned (scan env rootPath root options) = Inr out \<and> p \<in> absolutePath ` set out)"
  shows "\<exists>n f. FileEntry p n f \<in> set (scanWalk rootPath root options)
            \<and> isValidImageFile env n (mergedOptions options)"
proof -
  let ?mo = "mergedOptions options"
  let ?w = "scanWalk rootPath root options"
  have sub: "set (performed ?w) \<subseteq> set ?w" by (rule set_performed)
  from touched consider
      (call) "StatCall p \<in> set (calls (scan env rootPath root options))
              \<or> ReadStreamCall p \<in> set (calls (scan env rootPath root options))"
    | (diag) "ErrorProcessingFile p e \<in> set (stderr (scan env rootPath root options))"
    | (rec) out where "returned (scan env rootPath root options) = Inr out"
              "p \<in> absolutePath ` set out"
    by blast
  then show ?thesis
  proof cases
    case call
    then obtain v where v: "v \<in> set (performed ?w)"
      and c: "StatCall p \<in> set (callsOf env ?mo v) \<or> ReadStreamCall p \<in> set (callsOf env ?mo v)"
      unfolding calls_eq by auto
    from callsOf_file [OF c] v sub show ?thesis by blast
  next
    case diag
    then have "ErrorProcessingFile p e \<in> set (List.map_filter (diagOf env rootPath ?mo) (performed ?w))"
      unfolding stderr_eq by (auto split: sum.splits)
    then obtain v where v: "v \<in> set (performed ?w)"
      and d: "diagOf env rootPath ?mo v = Some (ErrorProcessingFile p e)"
      by (auto simp: set_map_filter)
    from diagOf_Some [OF d] v sub show ?thesis by blast
  next
    case rec
    from returned_Inr [OF rec(1)] rec(2)
    obtain v r where v: "v \<in> set ?w" and r: "recordOf env rootPath ?mo v = Some r"
      and a: "absolutePath r = p"
      by (auto simp: set_map_filter)
    from recordOf_Some [OF r] obtain q n f where
      q: "v = FileEntry q n f" "isValidImageFile env n ?mo" "absolutePath r = resolve q"
      by blast
    from walk_file_normal(1) [OF wf v [unfolded q(1)]] q(3) a have "q = p" by simp
    with v q show ?thesis by blast
  qed
qed

lemma walkEntries_flat: "v \<in> set (walkEntries False dirPath es) \<Longrightarrow> \<not> isUnlistable v"
  by (induction es) (auto simp: Let_def split: if_splits simp del: walkDir.simps)

lemma recordOf_cong:
  "fileTypes o1 = fileTypes o2 \<Longrightarrow> maxSize o1 = maxSize o2 \<Longrightarrow>
     recordOf env rootPath o1 v = recordOf env rootPath o2 v"
  by (cases v) (auto simp: isValidImageFile_def split: sum.splits)

lemma filter_map_filter_none:
  "(\<And>x y. x \<in> set xs \<Longrightarrow> g x = Some y \<Longrightarrow> \<not> P y) \<Longrightarrow> filter P (List.map_filter g xs) = []"
  by (auto simp: filter_empty_conv set_map_filter)

lemma top_level_records:
  assumes "wf_entries es"
  shows "List.map_filter (recordOf env rootPath mo) (walkEntries False rootPath es)
       = filter (\<lambda>r. length (path r) = 1)
           (List.map_filter (recordOf env rootPath mo) (walkEntries True rootPath es))"
  using assms
proof (induction es)
  case Nil
  show ?case by (simp add: List.map_filter_simps)
next
  case (Cons entry rest)
  obtain m e where entry: "entry = (m, e)" by (cases entry)
  from Cons.prems entry have vm: "validName m" and we: "wf_node e" and wr: "wf_entries rest"
    by simp_all
  have pm: "properSegment m" using vm by (rule validName_proper)
  note IH = Cons.IH [OF wr]
  show ?case
  proof (cases e)
    case (RegularFile st bs err)
    have "length (path r) = 1"
      if "recordOf env rootPath mo (FileEntry (join rootPath m) m e) = Some r" for r
    proof -
      from recordOf_Some [OF that] have "path r = relative rootPath (join rootPath m)"
        by simp
      also have "\<dots> = [m]"
        using relative_below [of "[m]" rootPath] pm by (simp add: join_valid)
      finally show ?thesis by simp
    qed
    then show ?thesis
      using entry RegularFile IH
      by (simp add: Let_def map_filter_append map_filter_Cons List.map_filter_simps
               split: option.splits)
  next
    case (Directory l)
    have deep: "\<not> length (path r) = 1"
      if "v \<in> set (walkDir True (join rootPath m) e)"
        "recordOf env rootPath mo v = Some r" for v r
    proof -
      from recordOf_Some [OF that(2)] obtain p n f where
        p: "v = FileEntry p n f" "path r = relative rootPath p"
        by blast
      from walk_file_below(1) [OF we that(1) [unfolded p(1)]] obtain ns where
        ns: "p = normalize (join rootPath m) @ ns" "ns \<noteq> []" "list_all validName ns"
        by blast
      have "p = normalize rootPath @ (m # ns)"
        using ns(1) pm by (simp add: normalize_join)
      moreover have "list_all properSegment (m # ns)"
        using pm ns(3) by (simp add: list_all_validName_proper)
      ultimately have "path r = m # ns"
        using p(2) relative_below by simp
      with ns(2) show ?thesis by (cases ns) simp_all
    qed
    have "filter (\<lambda>r. length (path r) = 1)
            (List.map_filter (recordOf env rootPath mo) (walkDir True (join rootPath m) e)) = []"
      by (rule filter_map_filter_none) (rule deep)
    then show ?thesis
      using entry Directory IH
      by (simp add: Let_def map_filter_append List.map_filter_simps del: walkDir.simps)
  next
    case Special
    then show ?thesis using entry IH by (simp add: Let_def)
  qed
qed

lemma isValidSize_positive: "0 < m \<Longrightarrow> isValidSize metadata (Some m) = (size_bytes metadata \<le> m)"
  by (simp add: isValidSize_def)

lemma positive_maxSize_bounds_output:
  assumes "returned (scan env rootPath root options) = Inr out"
    and "maxSize (mergedOptions options) = Some m" and "0 < m" and "r \<in> set out"
  shows "size_bytes r \<le> m"
proof -
  from returned_Inr(2) [OF assms(1)] assms(4) obtain v where
    "recordOf env rootPath (mergedOptions options) v = Some r"
    by (auto simp: set_map_filter)
  from recordOf_Some [OF this] assms(2,3) show ?thesis
    by (auto simp: isValidSize_positive)
qed

lemma recordOf_no_types:
  "fileTypes mo = [] \<Longrightarrow> recordOf env rootPath mo v = None"
  by (cases v) (simp_all add: isValidImageFile_def)

lemma map_filter_None: "(\<And>x. g x = None) \<Longrightarrow> List.map_filter g xs = []"
  by (simp add: List.map_filter_def)

subsection \<open>The filters as requested and as applied\<close>

lemma requested_options:
  "recursive (mergedOptions options) = requestedRecursive options"
  "fileTypes (mergedOptions options) = requestedFileTypes options"
  "maxSize (mergedOptions options) = opt_maxSize options"
  by (simp_all add: mergeOptions_def defaultOptions_def requestedRecursive_def
        requestedFileTypes_def split: option.splits)

lemma metadataOf_not_regular:
  "metadataOf env rootPath p (Directory l) = Inl ENOENT"
  "metadataOf env rootPath p Special = Inl ENOENT"
  by (simp_all add: metadataOf_def getImageMetadata_def)

lemma isValidSize_requested:
  "opt_maxSize options \<noteq> Some 0 \<Longrightarrow>
     isValidSize metadata (opt_maxSize options) = withinRequestedSize options (size_bytes metadata)"
  by (cases "opt_maxSize options") (simp_all add: isValidSize_def withinRequestedSize_def)

lemma recordOf_matchesFilters:
  assumes "opt_maxSize options \<noteq> Some 0"
  shows "(recordOf env rootPath (mergedOptions options) v \<noteq> None) = matchesFilters env options v"
proof (cases v)
  case (FileEntry p name f)
  show ?thesis
  proof (cases f)
    case (RegularFile st bs err)
    show ?thesis
    proof (cases st)
      case (Inl e)
      then show ?thesis using FileEntry RegularFile
        by (simp add: metadataOf_stat_fails)
    next
      case (Inr stats)
      show ?thesis
      proof (cases err)
        case None
        then show ?thesis using FileEntry RegularFile Inr isValidSize_requested [OF assms]
          by (simp add: metadataOf_ok isValidImageFile_def requested_options)
      next
        case (Some e)
        then show ?thesis using FileEntry RegularFile Inr
          by (simp add: metadataOf_read_fails)
      qed
    qed
  next
    case (Directory l)
    then show ?thesis using FileEntry by (simp add: metadataOf_not_regular)
  next
    case Special
    then show ?thesis using FileEntry by (simp add: metadataOf_not_regular)
  qed
qed simp_all

lemma diagOf_failsExtraction:
  "(diagOf env rootPath (mergedOptions options) v \<noteq> None) = failsExtraction env options v"
proof (cases v)
  case (FileEntry p name f)
  show ?thesis
  proof (cases f)
    case (RegularFile st bs err)
    show ?thesis
    proof (cases st)
      case (Inl e)
      then show ?thesis using FileEntry RegularFile
        by (simp add: metadataOf_stat_fails isValidImageFile_def requested_options)
    next
      case (Inr stats)
      show ?thesis
      proof (cases err)
        case None
        then show ?thesis using FileEntry RegularFile Inr
          by (simp add: metadataOf_ok)
      next
        case (Some e)
        then show ?thesis using FileEntry RegularFile Inr
          by (simp add: metadataOf_read_fails isValidImageFile_def requested_options)
      qed
    qed
  next
    case (Directory l)
    then show ?thesis using FileEntry
      by (simp add: metadataOf_not_regular isValidImageFile_def requested_options)
  next
    case Special
    then show ?thesis using FileEntry
      by (simp add: metadataOf_not_regular isValidImageFile_def requested_options)
  qed
qed simp_all

lemma failing_file_is_isolated_unless_zero_bound:
  assumes wf: "wf_node root"
    and bound: "opt_maxSize options \<noteq> Some 0"
    and listable: "\<forall>v\<in>set (requestedWalk rootPath root options). \<not> isUnlistable v"
    and bad: "filter (failsExtraction env options) (requestedWalk rootPath root options)
                = [FileEntry p name f]"
    and good: "length (filter (matchesFilters env options) (requestedWalk rootPath root options)) = N"
  shows "\<exists>out e. returned (scan env rootPath root options) = Inr out
            \<and> length out = N
            \<and> p \<notin> absolutePath ` set out
            \<and> stderr (scan env rootPath root options) = [ErrorProcessingFile p e]"
proof -
  let ?mo = "mergedOptions options"
  let ?w = "scanWalk rootPath root options"
  let ?out = "List.map_filter (recordOf env rootPath ?mo) ?w"
  have w: "requestedWalk rootPath root options = ?w"
    by (simp only: requested_options)
  have fe: "firstError ?w = Inr ()"
    using listable unfolding w by (simp only: firstError_Inr_iff)
  have pf: "performed ?w = ?w"
    using fe by (rule performed_all)
  have ret: "returned (scan env rootPath root options) = Inr ?out"
    by (simp only: returned_eq fe pf sum.case)
  have len: "length ?out = N"
    using good unfolding w by (simp only: length_map_filter recordOf_matchesFilters [OF bound])
  have mem: "FileEntry p name f \<in> set ?w"
    and fails: "failsExtraction env options (FileEntry p name f)"
    using bad [unfolded w]
      filter_eq_ConsD [of "failsExtraction env options" ?w "FileEntry p name f" "[]"]
    by auto
  from fails have "diagOf env rootPath ?mo (FileEntry p name f) \<noteq> None"
    by (simp only: diagOf_failsExtraction)
  then obtain l where l: "diagOf env rootPath ?mo (FileEntry p name f) = Some l"
    by blast
  from diagOf_Some [OF l] obtain e where e: "metadataOf env rootPath p f = Inl e"
    and le: "l = ErrorProcessingFile p e"
    by auto
  have "List.map_filter (diagOf env rootPath ?mo) ?w
          = map (the \<circ> diagOf env rootPath ?mo) [FileEntry p name f]"
    unfolding List.map_filter_def diagOf_failsExtraction bad [unfolded w] ..
  then have err: "stderr (scan env rootPath root options) = [ErrorProcessingFile p e]"
    using l le by (simp add: stderr_eq fe pf del: walkDir.simps diagOf.simps)
  have absent: "p \<notin> absolutePath ` set ?out"
  proof
    assume "p \<in> absolutePath ` set ?out"
    then obtain r v where v: "v \<in> set ?w" and r: "recordOf env rootPath ?mo v = Some r"
      and a: "absolutePath r = p"
      by (auto simp: set_map_filter)
    from recordOf_Some [OF r] obtain q n' f' where
      q: "v = FileEntry q n' f'" "metadataOf env rootPath q f' = Inr r" "absolutePath r = resolve q"
      by blast
    from walk_file_normal(1) [OF wf v [unfolded q(1)]] q(3) a have "q = p" by simp
    with walk_same_path_same_name [OF wf mem] v q(1) have "f' = f" by blast
    with q(2) \<open>q = p\<close> e show False by simp
  qed
  from ret len absent err show ?thesis by blast
qed

subsection \<open>Running the scanner on concrete inputs\<close>

lemmas scan_eval = scan_eq Let_def mergeOptions_def defaultOptions_def join_def normalize_def
  normalizeStep_def isValidImageFile_def extname_def asciiLowerCase_def asciiLowerChar_def
  List.map_filter_simps metadataOf_ok metadataOf_stat_fails metadataOf_read_fails isValidSize_def
  relative_def resolve_def hex_def hexByte_def hexDigit_def hexDigits_def plainFile_def
  sampleDigest_def samplePlatform_def validName_def noOptions_def requestedRecursive_def
  requestedFileTypes_def withinRequestedSize_def

section \<open>The claims\<close>

text \<open>
  Claim C1. Every file of the scanned tree whose lower-cased extension is one of the
  file types and whose size is within \<open>maxSize\<close> (when one is set) has exactly one record
  in the array that \<^verbatim>\<open>scan\<close> returns, and the \<open>hash\<close> of that record is the lower-case
  hexadecimal SHA-256 digest of the file's exact bytes.

  The file types, the bound and the depth of the walk are the ones the caller asks for.
  The file is an entry of the walk with a size (its \<^verbatim>\<open>stat\<close> answers) and a content (its read
  stream ends without error); the array is what the scan returns. The record of a file
  is the one that carries its full path, and the digest is the one that the platform
  computes under the name \<^verbatim>\<open>sha256\<close>, taken of the whole content however the stream cuts it
  into chunks.
\<close>

theorem accepted_file_recorded_once:
  assumes wf: "wf_node root"
    and ret: "returned (scan env rootPath root options) = Inr out"
    and reached: "FileEntry p name (RegularFile (Inr st) bytes None)
                    \<in> set (requestedWalk rootPath root options)"
    and ext: "toLowerCase env (extname name) \<in> set (requestedFileTypes options)"
    and sz: "withinRequestedSize options (size_st st)"
  shows "\<exists>r. filter (\<lambda>x. absolutePath x = p) out = [r]
            \<and> hash r = hex (digestOf env ''sha256'' bytes)
            \<and> set (hash r) \<subseteq> set hexDigits
            \<and> size_bytes r = size_st st
            \<and> path r = relative rootPath p"
proof -
  let ?mo = "mergedOptions options"
  let ?w = "scanWalk rootPath root options"
  let ?f = "RegularFile (Inr st) bytes None"
  let ?r = "\<lparr> path = relative rootPath p, absolutePath = resolve p, size_bytes = size_st st,
              hash = hex (digestOf env ''sha256'' bytes), created = birthtime st,
              modified = mtime st \<rparr>"
  have met: "FileEntry p name ?f \<in> set ?w"
    using reached by (simp only: requested_options)
  have out: "out = List.map_filter (recordOf env rootPath ?mo) ?w"
    using returned_Inr(2) [OF ret] by simp
  have valid: "isValidImageFile env name ?mo"
    using ext by (simp add: isValidImageFile_def requested_options)
  have size_ok: "isValidSize ?r (maxSize ?mo)"
    using sz by (simp add: isValidSize_def withinRequestedSize_def requested_options
                      split: option.splits)
  have rec: "recordOf env rootPath ?mo (FileEntry p name ?f) = Some ?r"
    using valid size_ok by (simp add: metadataOf_ok)
  have same: "(absolutePath y = p) = (filePath v = Some p)"
    if "v \<in> set ?w" "recordOf env rootPath ?mo v = Some y" for v y
  proof -
    from recordOf_Some [OF that(2)] obtain q n f where
      v: "v = FileEntry q n f" and a: "absolutePath y = resolve q"
      by blast
    from walk_file_normal(1) [OF wf that(1) [unfolded v]] a v show ?thesis by simp
  qed
  have "filter (\<lambda>x. absolutePath x = p) out
          = List.map_filter (recordOf env rootPath ?mo) (filter (\<lambda>v. filePath v = Some p) ?w)"
    unfolding out by (rule filter_map_filter) (rule same)
  also have "filter (\<lambda>v. filePath v = Some p) ?w = [FileEntry p name ?f]"
    by (rule filter_unique [OF walk_distinct(1) [OF wf] met]) simp
  finally have "filter (\<lambda>x. absolutePath x = p) out = [?r]"
    using rec by (simp add: List.map_filter_simps)
  moreover have "set (hex (digestOf env ''sha256'' bytes)) \<subseteq> set hexDigits"
    using hex_lower by blast
  ultimately show ?thesis by simp
qed

theorem accepted_file_recorded_once_witness:
  "\<exists>r. filter (\<lambda>x. absolutePath x = [''srv'', ''images'', ''d'', ''e.GIF''])
            [\<lparr> path = [''a.jpg''], absolutePath = [''srv'', ''images'', ''a.jpg''], size_bytes = 3,
                hash = ''03030201'', created = 1000, modified = 2000 \<rparr>,
             \<lparr> path = [''d'', ''e.GIF''], absolutePath = [''srv'', ''images'', ''d'', ''e.GIF''],
                size_bytes = 2, hash = ''0210ff'', created = 1000, modified = 2000 \<rparr>] = [r]
        \<and> hash r = hex (digestOf samplePlatform ''sha256'' [255, 16])
        \<and> set (hash r) \<subseteq> set hexDigits
        \<and> size_bytes r = size_st \<lparr> size_st = 2, birthtime = 1000, mtime = 2000 \<rparr>
        \<and> path r = relative [''srv'', ''images''] [''srv'', ''images'', ''d'', ''e.GIF'']"
proof -
  have wf: "wf_node sampleTree"
    by (simp add: sampleTree_def scan_eval)
  have ret: "returned (scan samplePlatform [''srv'', ''images''] sampleTree sampleOptions) =
      Inr [\<lparr> path = [''a.jpg''], absolutePath = [''srv'', ''images'', ''a.jpg''], size_bytes = 3,
                hash = ''03030201'', created = 1000, modified = 2000 \<rparr>,
             \<lparr> path = [''d'', ''e.GIF''], absolutePath = [''srv'', ''images'', ''d'', ''e.GIF''],
                size_bytes = 2, hash = ''0210ff'', created = 1000, modified = 2000 \<rparr>]"
    by (simp add: sampleTree_def sampleOptions_def scan_eval)
  have reached: "FileEntry [''srv'', ''images'', ''d'', ''e.GIF''] ''e.GIF''
        (RegularFile (Inr \<lparr> size_st = 2, birthtime = 1000, mtime = 2000 \<rparr>) [255, 16] None)
      \<in> set (requestedWalk [''srv'', ''images''] sampleTree sampleOptions)"
    by (simp add: sampleTree_def sampleOptions_def scan_eval)
  have ext: "toLowerCase samplePlatform (extname ''e.GIF'') \<in> set (requestedFileTypes sampleOptions)"
    by (simp add: sampleOptions_def scan_eval)
  have sz: "withinRequestedSize sampleOptions (size_st \<lparr> size_st = 2, birthtime = 1000, mtime = 2000 \<rparr>)"
    by (simp add: sampleOptions_def scan_eval)
  show ?thesis
    by (rule accepted_file_recorded_once [OF wf ret reached ext sz])
qed

text \<open>
  Claim C2. With \<open>maxSize\<close> set, a file that passes the type predicate is left out when it
  is larger than the bound and kept otherwise, for any bound including \<open>0\<close>.

  The scanner does not do this at the bound \<open>0\<close>: \<^verbatim>\<open>if (!maxSize) return true\<close> takes \<open>0\<close>
  for an absent bound, so \<open>isValidSize\<close> answers true for every size, and a scan with
  \<open>maxSize = 0\<close> of a directory holding the 3-byte file \<^verbatim>\<open>a.jpg\<close> returns its record,
  whatever the digest function. For a positive bound the predicate is the comparison
  (\<open>isValidSize_positive\<close>, \<open>positive_maxSize_bounds_output\<close>).
\<close>

theorem zero_maxSize_keeps_larger_file:
  "isValidSize metadata (Some 0)
   \<and> returned (scan \<lparr> toLowerCase = asciiLowerCase, digestOf = d \<rparr> [''srv'', ''images'']
         (Directory (Inr [(''a.jpg'', plainFile [1, 2, 3])]))
         (noOptions\<lparr>opt_maxSize := Some 0\<rparr>))
     = Inr [\<lparr> path = [''a.jpg''], absolutePath = [''srv'', ''images'', ''a.jpg''], size_bytes = 3,
              hash = hex (d ''sha256'' [1, 2, 3]), created = 1000, modified = 2000 \<rparr>]"
  by (simp add: scan_eval del: hex_def)

text \<open>
  Claim C3. In a directory tree with one file whose metadata extraction fails and \<open>N\<close>
  other readable files that match the filters, \<^verbatim>\<open>scan\<close> succeeds and returns exactly \<open>N\<close>
  records: the failing file is skipped, one diagnostic for it is written to the error
  channel, and the walk goes on with the entries after it.

  The scanner isolates the failing file, but at the bound \<open>0\<close> it does not return \<open>N\<close>
  records. In a directory that holds the 3-byte \<^verbatim>\<open>a.jpg\<close>, the unreadable \<^verbatim>\<open>locked.png\<close> and
  the empty \<^verbatim>\<open>z.gif\<close>, scanned with \<open>maxSize = 0\<close>, one file fails, one readable file matches
  the filters (\<^verbatim>\<open>z.gif\<close>, of size \<open>0\<close>), and the scan returns two records: \<^verbatim>\<open>a.jpg\<close> is kept
  although it is larger than the bound, because \<^verbatim>\<open>if (!maxSize) return true\<close> takes the
  bound \<open>0\<close> for an absent one. For every other bound, and for none, the scan returns
  exactly the \<open>N\<close> records and writes the one diagnostic
  (\<open>failing_file_is_isolated_unless_zero_bound\<close>).
\<close>

theorem zero_maxSize_returns_more_than_matching_files:
  "filter (failsExtraction samplePlatform (noOptions\<lparr>opt_maxSize := Some 0\<rparr>))
      (requestedWalk [''srv'', ''images''] lockedFileTree (noOptions\<lparr>opt_maxSize := Some 0\<rparr>))
     = [FileEntry [''srv'', ''images'', ''locked.png''] ''locked.png''
          (RegularFile (Inr \<lparr> size_st = 7, birthtime = 1000, mtime = 2000 \<rparr>) [] (Some EACCES))]
   \<and> filter (matchesFilters samplePlatform (noOptions\<lparr>opt_maxSize := Some 0\<rparr>))
      (requestedWalk [''srv'', ''images''] lockedFileTree (noOptions\<lparr>opt_maxSize := Some 0\<rparr>))
     = [FileEntry [''srv'', ''images'', ''z.gif''] ''z.gif'' (plainFile [])]
   \<and> scan samplePlatform [''srv'', ''images''] lockedFileTree (noOptions\<lparr>opt_maxSize := Some 0\<rparr>)
     = \<lparr> returned =
           Inr [\<lparr> path = [''a.jpg''], absolutePath = [''srv'', ''images'', ''a.jpg''],
                   size_bytes = 3, hash = ''03030201'', created = 1000, modified = 2000 \<rparr>,
                \<lparr> path = [''z.gif''], absolutePath = [''srv'', ''images'', ''z.gif''],
                   size_bytes = 0, hash = ''00'', created = 1000, modified = 2000 \<rparr>],
         stderr = [ErrorProcessingFile [''srv'', ''images'', ''locked.png''] EACCES],
         calls =
           [ReaddirCall [''srv'', ''images''],
            StatCall [''srv'', ''images'', ''a.jpg''],
            ReadStreamCall [''srv'', ''images'', ''a.jpg''],
            StatCall [''srv'', ''images'', ''locked.png''],
            ReadStreamCall [''srv'', ''images'', ''locked.png''],
            StatCall [''srv'', ''images'', ''z.gif''],
            ReadStreamCall [''srv'', ''images'', ''z.gif'']] \<rparr>"
proof -
  have fails: "filter (failsExtraction samplePlatform (noOptions\<lparr>opt_maxSize := Some 0\<rparr>))
      (requestedWalk [''srv'', ''images''] lockedFileTree (noOptions\<lparr>opt_maxSize := Some 0\<rparr>))
     = [FileEntry [''srv'', ''images'', ''locked.png''] ''locked.png''
          (RegularFile (Inr \<lparr> size_st = 7, birthtime = 1000, mtime = 2000 \<rparr>) [] (Some EACCES))]"
    by (simp add: lockedFileTree_def scan_eval)
  have matches: "filter (matchesFilters samplePlatform (noOptions\<lparr>opt_maxSize := Some 0\<rparr>))
      (requestedWalk [''srv'', ''images''] lockedFileTree (noOptions\<lparr>opt_maxSize := Some 0\<rparr>))
     = [FileEntry [''srv'', ''images'', ''z.gif''] ''z.gif'' (plainFile [])]"
    by (simp add: lockedFileTree_def scan_eval)
  have run: "scan samplePlatform [''srv'', ''images''] lockedFileTree (noOptions\<lparr>opt_maxSize := Some 0\<rparr>)
     = \<lparr> returned =
           Inr [\<lparr> path = [''a.jpg''], absolutePath = [''srv'', ''images'', ''a.jpg''],
                   size_bytes = 3, hash = ''03030201'', created = 1000, modified = 2000 \<rparr>,
                \<lparr> path = [''z.gif''], absolutePath = [''srv'', ''images'', ''z.gif''],
                   size_bytes = 0, hash = ''00'', created = 1000, modified = 2000 \<rparr>],
         stderr = [ErrorProcessingFile [''srv'', ''images'', ''locked.png''] EACCES],
         calls =
           [ReaddirCall [''srv'', ''images''],
            StatCall [''srv'', ''images'', ''a.jpg''],
            ReadStreamCall [''srv'', ''images'', ''a.jpg''],
            StatCall [''srv'', ''images'', ''locked.png''],
            ReadStreamCall [''srv'', ''images'', ''locked.png''],
            StatCall [''srv'', ''images'', ''z.gif''],
            ReadStreamCall [''srv'', ''images'', ''z.gif'']] \<rparr>"
    by (simp add: lockedFileTree_def scan_eval)
  from fails matches run show ?thesis by (intro conjI)
qed

text \<open>
  Claim C4. When the root cannot be listed (it does not exist, may not be read, or is
  not a directory), \<^verbatim>\<open>scan\<close> throws that error: no array is returned, and the only call
  made is the failed listing. Scanning an existing empty directory returns the empty
  array and writes no error.
\<close>

theorem unlistable_root_fails_empty_root_succeeds:
  "(readdir root = Inl e \<longrightarrow>
      scan env rootPath root options =
        \<lparr> returned = Inl e, stderr = [ErrorScanningDirectory rootPath e],
          calls = [ReaddirCall rootPath] \<rparr>)
   \<and> scan env rootPath (Directory (Inr [])) options =
        \<lparr> returned = Inr [], stderr = [], calls = [ReaddirCall rootPath] \<rparr>"
  by (simp add: scan_eq Let_def List.map_filter_simps)

theorem unlistable_root_fails_empty_root_succeeds_witness:
  "scan samplePlatform [''srv'', ''missing''] (Directory (Inl ENOENT)) sampleOptions =
     \<lparr> returned = Inl ENOENT, stderr = [ErrorScanningDirectory [''srv'', ''missing''] ENOENT],
       calls = [ReaddirCall [''srv'', ''missing'']] \<rparr>
   \<and> scan samplePlatform [''srv'', ''notes.txt''] (plainFile [1]) sampleOptions =
     \<lparr> returned = Inl ENOTDIR, stderr = [ErrorScanningDirectory [''srv'', ''notes.txt''] ENOTDIR],
       calls = [ReaddirCall [''srv'', ''notes.txt'']] \<rparr>"
proof -
  have missing: "readdir (Directory (Inl ENOENT)) = Inl ENOENT"
    by simp
  have notdir: "readdir (plainFile [1]) = Inl ENOTDIR"
    by (simp add: plainFile_def)
  from unlistable_root_fails_empty_root_succeeds
         [of "Directory (Inl ENOENT)" ENOENT samplePlatform "[''srv'', ''missing'']" sampleOptions]
       unlistable_root_fails_empty_root_succeeds
         [of "plainFile [1]" ENOTDIR samplePlatform "[''srv'', ''notes.txt'']" sampleOptions]
       missing notdir
  show ?thesis by blast
qed

text \<open>
  Claim C5. A regular file that the walk meets and whose lower-cased extension is not one
  of the file types the caller asks for is rejected silently: the scan never calls
  \<^verbatim>\<open>stat\<close> or opens a read stream on its path, writes no diagnostic for it, returns no
  record for it, and when the scan does throw, the error is that of a directory listing.
\<close>

theorem rejected_extension_is_silent:
  assumes wf: "wf_node root"
    and met: "FileEntry p name f \<in> set (requestedWalk rootPath root options)"
    and ext: "toLowerCase env (extname name) \<notin> set (requestedFileTypes options)"
  shows "StatCall p \<notin> set (calls (scan env rootPath root options))
       \<and> ReadStreamCall p \<notin> set (calls (scan env rootPath root options))
       \<and> (\<forall>e. ErrorProcessingFile p e \<notin> set (stderr (scan env rootPath root options)))
       \<and> (\<forall>out. returned (scan env rootPath root options) = Inr out
                  \<longrightarrow> p \<notin> absolutePath ` set out)
       \<and> (\<forall>e. returned (scan env rootPath root options) = Inl e
                  \<longrightarrow> (\<exists>d. Unlistable d e \<in> set (requestedWalk rootPath root options)))"
proof -
  have w: "requestedWalk rootPath root options = scanWalk rootPath root options"
    by (simp only: requested_options)
  have untouched: False
    if "StatCall p \<in> set (calls (scan env rootPath root options))
       \<or> ReadStreamCall p \<in> set (calls (scan env rootPath root options))
       \<or> ErrorProcessingFile p e \<in> set (stderr (scan env rootPath root options))
       \<or> (\<exists>out. returned (scan env rootPath root options) = Inr out \<and> p \<in> absolutePath ` set out)"
    for e
  proof -
    from scan_touches_only_valid_files [OF wf that] obtain n f' where
      "FileEntry p n f' \<in> set (scanWalk rootPath root options)"
      "isValidImageFile env n (mergedOptions options)"
      by blast
    with walk_same_path_same_name [OF wf met [unfolded w]]
    have "isValidImageFile env name (mergedOptions options)"
      by blast
    with ext show False by (simp add: isValidImageFile_def requested_options)
  qed
  have thrown: "\<exists>d. Unlistable d e \<in> set (requestedWalk rootPath root options)"
    if "returned (scan env rootPath root options) = Inl e" for e
  proof -
    from that have "firstError (scanWalk rootPath root options) = Inl e"
      unfolding returned_eq by (simp split: sum.splits)
    then show ?thesis unfolding w by (rule firstError_Inl_mem)
  qed
  from untouched thrown show ?thesis by blast
qed

theorem rejected_extension_is_silent_witness:
  "StatCall [''srv'', ''images'', ''c.txt'']
      \<notin> set (calls (scan samplePlatform [''srv'', ''images''] sampleTree sampleOptions))
   \<and> ReadStreamCall [''srv'', ''images'', ''c.txt'']
      \<notin> set (calls (scan samplePlatform [''srv'', ''images''] sampleTree sampleOptions))
   \<and> ErrorProcessingFile [''srv'', ''images'', ''c.txt''] EACCES
      \<notin> set (stderr (scan samplePlatform [''srv'', ''images''] sampleTree sampleOptions))
   \<and> [''srv'', ''images'', ''c.txt'']
      \<notin> absolutePath ` set
           [\<lparr> path = [''a.jpg''], absolutePath = [''srv'', ''images'', ''a.jpg''], size_bytes = 3,
               hash = ''03030201'', created = 1000, modified = 2000 \<rparr>,
            \<lparr> path = [''d'', ''e.GIF''], absolutePath = [''srv'', ''images'', ''d'', ''e.GIF''],
               size_bytes = 2, hash = ''0210ff'', created = 1000, modified = 2000 \<rparr>]"
proof -
  have wf: "wf_node sampleTree"
    by (simp add: sampleTree_def scan_eval)
  have met: "FileEntry [''srv'', ''images'', ''c.txt''] ''c.txt'' (plainFile [9])
               \<in> set (requestedWalk [''srv'', ''images''] sampleTree sampleOptions)"
    by (simp add: sampleTree_def sampleOptions_def scan_eval)
  have ext: "toLowerCase samplePlatform (extname ''c.txt'') \<notin> set (requestedFileTypes sampleOptions)"
    by (simp add: sampleOptions_def scan_eval)
  have ret: "returned (scan samplePlatform [''srv'', ''images''] sampleTree sampleOptions) =
      Inr [\<lparr> path = [''a.jpg''], absolutePath = [''srv'', ''images'', ''a.jpg''], size_bytes = 3,
              hash = ''03030201'', created = 1000, modified = 2000 \<rparr>,
           \<lparr> path = [''d'', ''e.GIF''], absolutePath = [''srv'', ''images'', ''d'', ''e.GIF''],
              size_bytes = 2, hash = ''0210ff'', created = 1000, modified = 2000 \<rparr>]"
    by (simp add: sampleTree_def sampleOptions_def scan_eval)
  from rejected_extension_is_silent [OF wf met ext] ret
  show ?thesis by blast
qed

text \<open>
  Claim C6 says that an empty or omitted \<open>fileTypes\<close> falls back to the default extensions.
  For the empty list the scanner does not: the spread
  \<^verbatim>\<open>{ ...this.defaultOptions, ...options }\<close> lets the empty list replace the defaults, and no
  file passes the type predicate. On the sample tree the scan with \<open>fileTypes = []\<close>
  returns no record, the scan with the default extensions three.
\<close>

theorem empty_fileTypes_counterexample:
  "returned (scan samplePlatform [''srv'', ''images''] sampleTree (noOptions\<lparr>opt_fileTypes := Some []\<rparr>))
     = Inr []
   \<and> returned (scan samplePlatform [''srv'', ''images''] sampleTree
        (noOptions\<lparr>opt_fileTypes := Some (fileTypes defaultOptions)\<rparr>))
     = Inr [\<lparr> path = [''a.jpg''], absolutePath = [''srv'', ''images'', ''a.jpg''], size_bytes = 3,
              hash = ''03030201'', created = 1000, modified = 2000 \<rparr>,
            \<lparr> path = [''b.png''], absolutePath = [''srv'', ''images'', ''b.png''], size_bytes = 5,
              hash = ''050807060504'', created = 1000, modified = 2000 \<rparr>,
            \<lparr> path = [''d'', ''e.GIF''], absolutePath = [''srv'', ''images'', ''d'', ''e.GIF''],
              size_bytes = 2, hash = ''0210ff'', created = 1000, modified = 2000 \<rparr>]
   \<and> scan samplePlatform [''srv'', ''images''] sampleTree (noOptions\<lparr>opt_fileTypes := Some []\<rparr>)
     \<noteq> scan samplePlatform [''srv'', ''images''] sampleTree
        (noOptions\<lparr>opt_fileTypes := Some (fileTypes defaultOptions)\<rparr>)"
proof -
  have none: "returned (scan samplePlatform [''srv'', ''images''] sampleTree
                 (noOptions\<lparr>opt_fileTypes := Some []\<rparr>)) = Inr []"
    by (simp add: sampleTree_def scan_eval)
  have some: "returned (scan samplePlatform [''srv'', ''images''] sampleTree
        (noOptions\<lparr>opt_fileTypes := Some (fileTypes defaultOptions)\<rparr>))
     = Inr [\<lparr> path = [''a.jpg''], absolutePath = [''srv'', ''images'', ''a.jpg''], size_bytes = 3,
              hash = ''03030201'', created = 1000, modified = 2000 \<rparr>,
            \<lparr> path = [''b.png''], absolutePath = [''srv'', ''images'', ''b.png''], size_bytes = 5,
              hash = ''050807060504'', created = 1000, modified = 2000 \<rparr>,
            \<lparr> path = [''d'', ''e.GIF''], absolutePath = [''srv'', ''images'', ''d'', ''e.GIF''],
              size_bytes = 2, hash = ''0210ff'', created = 1000, modified = 2000 \<rparr>]"
    by (simp add: sampleTree_def scan_eval)
  from none some show ?thesis by auto
qed

text \<open>
  Claim C6, amended. When \<open>fileTypes\<close> is omitted the scan is the scan with the default
  extensions supplied; when \<open>fileTypes\<close> is the empty list no file is accepted and a scan
  that returns, returns no record. When \<open>recursive\<close> is omitted the scan is the scan with
  \<open>recursive = true\<close>. When \<open>maxSize\<close> is omitted there is no bound: every size is valid.
\<close>

theorem omitted_options_take_defaults:
  "scan env rootPath root (options\<lparr>opt_fileTypes := None\<rparr>)
     = scan env rootPath root
         (options\<lparr>opt_fileTypes :=
            Some [''.jpg'', ''.jpeg'', ''.png'', ''.gif'', ''.webp'', ''.bmp'', ''.tiff'']\<rparr>)
   \<and> (case returned (scan env rootPath root (options\<lparr>opt_fileTypes := Some []\<rparr>)) of
         Inl e \<Rightarrow> True
       | Inr out \<Rightarrow> out = [])
   \<and> scan env rootPath root (options\<lparr>opt_recursive := None\<rparr>)
     = scan env rootPath root (options\<lparr>opt_recursive := Some True\<rparr>)
   \<and> maxSize (mergedOptions (options\<lparr>opt_maxSize := None\<rparr>)) = None
   \<and> isValidSize metadata None"
proof -
  have types: "mergedOptions (options\<lparr>opt_fileTypes := None\<rparr>)
     = mergedOptions (options\<lparr>opt_fileTypes :=
            Some [''.jpg'', ''.jpeg'', ''.png'', ''.gif'', ''.webp'', ''.bmp'', ''.tiff'']\<rparr>)"
    by (simp add: mergeOptions_def defaultOptions_def)
  have rec: "mergedOptions (options\<lparr>opt_recursive := None\<rparr>)
     = mergedOptions (options\<lparr>opt_recursive := Some True\<rparr>)"
    by (simp add: mergeOptions_def defaultOptions_def)
  have "fileTypes (mergedOptions (options\<lparr>opt_fileTypes := Some []\<rparr>)) = []"
    by (simp add: mergeOptions_def)
  then have empty: "List.map_filter
      (recordOf env rootPath (mergedOptions (options\<lparr>opt_fileTypes := Some []\<rparr>))) vs = []" for vs
    by (intro map_filter_None recordOf_no_types)
  have "case returned (scan env rootPath root (options\<lparr>opt_fileTypes := Some []\<rparr>)) of
         Inl e \<Rightarrow> True
       | Inr out \<Rightarrow> out = []"
    unfolding returned_eq empty by (simp split: sum.splits)
  moreover have "scan env rootPath root (options\<lparr>opt_fileTypes := None\<rparr>)
     = scan env rootPath root
         (options\<lparr>opt_fileTypes :=
            Some [''.jpg'', ''.jpeg'', ''.png'', ''.gif'', ''.webp'', ''.bmp'', ''.tiff'']\<rparr>)"
    unfolding scan_def types ..
  moreover have "scan env rootPath root (options\<lparr>opt_recursive := None\<rparr>)
     = scan env rootPath root (options\<lparr>opt_recursive := Some True\<rparr>)"
    unfolding scan_def rec ..
  moreover have "maxSize (mergedOptions (options\<lparr>opt_maxSize := None\<rparr>)) = None"
    by (simp add: mergeOptions_def defaultOptions_def)
  moreover have "isValidSize metadata None"
    by (simp add: isValidSize_def)
  ultimately show ?thesis by blast
qed

text \<open>
  Claim C7 says that for every root and options the scan with \<open>recursive = false\<close> returns
  what the scan with \<open>recursive = true\<close> returns, filtered down to the entries directly in
  the root. Where a subdirectory cannot be listed the recursive scan returns nothing to
  filter: it throws, while the scan with \<open>recursive = false\<close> never lists the subdirectory
  and returns the records of the root.
\<close>

theorem shallow_scan_counterexample:
  "returned (scan samplePlatform [''srv'', ''images''] lockedDirTree (noOptions\<lparr>opt_recursive := Some False\<rparr>))
     = Inr [\<lparr> path = [''a.jpg''], absolutePath = [''srv'', ''images'', ''a.jpg''], size_bytes = 3,
              hash = ''03030201'', created = 1000, modified = 2000 \<rparr>,
            \<lparr> path = [''z.gif''], absolutePath = [''srv'', ''images'', ''z.gif''], size_bytes = 0,
              hash = ''00'', created = 1000, modified = 2000 \<rparr>]
   \<and> returned (scan samplePlatform [''srv'', ''images''] lockedDirTree (noOptions\<lparr>opt_recursive := Some True\<rparr>))
     = Inl EACCES
   \<and> \<not> (\<exists>out. returned (scan samplePlatform [''srv'', ''images''] lockedDirTree
                        (noOptions\<lparr>opt_recursive := Some True\<rparr>)) = Inr out
             \<and> returned (scan samplePlatform [''srv'', ''images''] lockedDirTree
                        (noOptions\<lparr>opt_recursive := Some False\<rparr>))
                 = Inr (filter (\<lambda>r. length (path r) = 1) out))"
proof -
  have flat: "returned (scan samplePlatform [''srv'', ''images''] lockedDirTree
                 (noOptions\<lparr>opt_recursive := Some False\<rparr>))
     = Inr [\<lparr> path = [''a.jpg''], absolutePath = [''srv'', ''images'', ''a.jpg''], size_bytes = 3,
              hash = ''03030201'', created = 1000, modified = 2000 \<rparr>,
            \<lparr> path = [''z.gif''], absolutePath = [''srv'', ''images'', ''z.gif''], size_bytes = 0,
              hash = ''00'', created = 1000, modified = 2000 \<rparr>]"
    by (simp add: lockedDirTree_def scan_eval)
  have deep: "returned (scan samplePlatform [''srv'', ''images''] lockedDirTree
                 (noOptions\<lparr>opt_recursive := Some True\<rparr>)) = Inl EACCES"
    by (simp add: lockedDirTree_def scan_eval)
  from flat deep show ?thesis by simp
qed

text \<open>
  Claim C7, amended. Whenever the scan with \<open>recursive = true\<close> returns, the scan of the
  same root with \<open>recursive = false\<close> returns exactly its records at depth 0 (those whose
  relative path is a single name), in the same order.
\<close>

theorem shallow_scan_is_filtered_recursive_scan:
  assumes wf: "wf_node root"
    and ret: "returned (scan env rootPath root (options\<lparr>opt_recursive := Some True\<rparr>)) = Inr out"
  shows "returned (scan env rootPath root (options\<lparr>opt_recursive := Some False\<rparr>))
           = Inr (filter (\<lambda>r. length (path r) = 1) out)"
proof -
  let ?deep = "mergedOptions (options\<lparr>opt_recursive := Some True\<rparr>)"
  let ?flat = "mergedOptions (options\<lparr>opt_recursive := Some False\<rparr>)"
  have rd: "recursive ?deep" and rf: "\<not> recursive ?flat"
    by (simp_all add: mergeOptions_def)
  have same: "recordOf env rootPath ?flat = recordOf env rootPath ?deep"
    by (rule ext, rule recordOf_cong) (simp_all add: mergeOptions_def)
  from returned_Inr [OF ret] rd
  have fe: "firstError (walkDir True rootPath root) = Inr ()"
    and out: "out = List.map_filter (recordOf env rootPath ?deep) (walkDir True rootPath root)"
    by simp_all
  from fe obtain es where es: "readdir root = Inr es"
    by (cases "readdir root") simp_all
  with wf have wes: "wf_entries es" by simp
  have flat: "firstError (walkDir False rootPath root) = Inr ()"
    using es walkEntries_flat [of _ rootPath es] by (simp add: firstError_Inr_iff)
  have "returned (scan env rootPath root (options\<lparr>opt_recursive := Some False\<rparr>))
          = Inr (List.map_filter (recordOf env rootPath ?flat) (walkDir False rootPath root))"
    using rf flat by (simp only: returned_eq performed_all [OF flat] sum.case simp_thms)
  also have "List.map_filter (recordOf env rootPath ?flat) (walkDir False rootPath root)
          = List.map_filter (recordOf env rootPath ?deep) (walkEntries False rootPath es)"
    using es by (simp add: List.map_filter_simps same)
  also have "\<dots> = filter (\<lambda>r. length (path r) = 1)
          (List.map_filter (recordOf env rootPath ?deep) (walkEntries True rootPath es))"
    by (rule top_level_records [OF wes])
  also have "List.map_filter (recordOf env rootPath ?deep) (walkEntries True rootPath es) = out"
    using es out by (simp add: List.map_filter_simps)
  finally show ?thesis .
qed

theorem shallow_scan_is_filtered_recursive_scan_witness:
  "returned (scan samplePlatform [''srv'', ''images''] sampleTree (sampleOptions\<lparr>opt_recursive := Some False\<rparr>))
     = Inr (filter (\<lambda>r. length (path r) = 1)
         [\<lparr> path = [''a.jpg''], absolutePath = [''srv'', ''images'', ''a.jpg''], size_bytes = 3,
             hash = ''03030201'', created = 1000, modified = 2000 \<rparr>,
          \<lparr> path = [''d'', ''e.GIF''], absolutePath = [''srv'', ''images'', ''d'', ''e.GIF''],
             size_bytes = 2, hash = ''0210ff'', created = 1000, modified = 2000 \<rparr>])"
proof -
  have wf: "wf_node sampleTree"
    by (simp add: sampleTree_def scan_eval)
  have ret: "returned (scan samplePlatform [''srv'', ''images''] sampleTree
                (sampleOptions\<lparr>opt_recursive := Some True\<rparr>)) =
      Inr [\<lparr> path = [''a.jpg''], absolutePath = [''srv'', ''images'', ''a.jpg''], size_bytes = 3,
              hash = ''03030201'', created = 1000, modified = 2000 \<rparr>,
           \<lparr> path = [''d'', ''e.GIF''], absolutePath = [''srv'', ''images'', ''d'', ''e.GIF''],
              size_bytes = 2, hash = ''0210ff'', created = 1000, modified = 2000 \<rparr>]"
    by (simp add: sampleTree_def sampleOptions_def scan_eval)
  show ?thesis
    by (rule shallow_scan_is_filtered_recursive_scan [OF wf ret])
qed

text \<open>
  Claim C8. The \<open>path\<close> of every record returned is relative to the scan root and has no
  \<^verbatim>\<open>..\<close> segment: it is the non-empty list of entry names that leads from the root to the
  file, and the absolute path is the resolved root followed by it.
\<close>

theorem record_paths_stay_below_root:
  assumes wf: "wf_node root"
    and ret: "returned (scan env rootPath root options) = Inr out"
    and r: "r \<in> set out"
  shows "''..'' \<notin> set (path r) \<and> path r \<noteq> [] \<and> list_all validName (path r)
       \<and> absolutePath r = resolve rootPath @ path r"
proof -
  from returned_Inr(2) [OF ret] r obtain v where
    v: "v \<in> set (scanWalk rootPath root options)"
    and rec: "recordOf env rootPath (mergedOptions options) v = Some r"
    by (auto simp: set_map_filter)
  from recordOf_Some [OF rec] obtain p n f where
    p: "v = FileEntry p n f" "path r = relative rootPath p" "absolutePath r = resolve p"
    by blast
  from walk_file_normal [OF wf v [unfolded p(1)]] obtain ns where
    ns: "resolve p = p" "relative rootPath p = ns" "p = normalize rootPath @ ns" "ns \<noteq> []"
      "list_all validName ns"
    by blast
  have "''..'' \<notin> set ns"
    using ns(5) by (auto simp: list_all_iff validName_def)
  with p ns show ?thesis by (simp add: resolve_def)
qed

theorem record_paths_stay_below_root_witness:
  "''..'' \<notin> set [''d'', ''e.GIF''] \<and> [''d'', ''e.GIF''] \<noteq> [] \<and> list_all validName [''d'', ''e.GIF'']
     \<and> [''srv'', ''images'', ''d'', ''e.GIF''] = resolve [''srv'', ''x'', ''..'', ''images''] @ [''d'', ''e.GIF'']"
proof -
  have wf: "wf_node sampleTree"
    by (simp add: sampleTree_def scan_eval)
  have ret: "returned (scan samplePlatform [''srv'', ''x'', ''..'', ''images''] sampleTree sampleOptions) =
      Inr [\<lparr> path = [''a.jpg''], absolutePath = [''srv'', ''images'', ''a.jpg''], size_bytes = 3,
              hash = ''03030201'', created = 1000, modified = 2000 \<rparr>,
           \<lparr> path = [''d'', ''e.GIF''], absolutePath = [''srv'', ''images'', ''d'', ''e.GIF''],
              size_bytes = 2, hash = ''0210ff'', created = 1000, modified = 2000 \<rparr>]"
    by (simp add: sampleTree_def sampleOptions_def scan_eval)
  from record_paths_stay_below_root [OF wf ret,
      of "\<lparr> path = [''d'', ''e.GIF''], absolutePath = [''srv'', ''images'', ''d'', ''e.GIF''],
              size_bytes = 2, hash = ''0210ff'', created = 1000, modified = 2000 \<rparr>"]
  show ?thesis by simp
qed

text \<open>
  Claim C9. In a recursive scan whose root was listed, a subdirectory whose listing fails
  makes the whole scan fail: \<^verbatim>\<open>scan\<close> throws the error of the first listing that fails in
  walk order, and returns no record.
\<close>

theorem unlistable_subdirectory_aborts_scan:
  assumes root: "readdir root = Inr entries"
    and rec: "recursive (mergedOptions options)"
    and sub: "Unlistable d e \<in> set (scanWalk rootPath root options)"
  shows "\<exists>pre d' e' post.
           scanWalk rootPath root options = pre @ Unlistable d' e' # post
         \<and> (\<forall>v\<in>set pre. \<not> isUnlistable v)
         \<and> returned (scan env rootPath root options) = Inl e'"
proof -
  let ?w = "scanWalk rootPath root options"
  from firstError_fails [OF sub] obtain e' where fe: "firstError ?w = Inl e'" ..
  from firstError_Inl [OF fe] obtain pre d' post where
    w: "?w = pre @ Unlistable d' e' # post" and pre: "\<forall>v\<in>set pre. \<not> isUnlistable v"
    by blast
  have ret: "returned (scan env rootPath root options) = Inl e'"
    by (simp only: returned_eq fe sum.case)
  show ?thesis using w pre ret by blast
qed

theorem unlistable_subdirectory_aborts_scan_witness:
  "\<exists>pre d' e' post.
       scanWalk [''srv'', ''images''] lockedDirTree noOptions = pre @ Unlistable d' e' # post
     \<and> (\<forall>v\<in>set pre. \<not> isUnlistable v)
     \<and> returned (scan samplePlatform [''srv'', ''images''] lockedDirTree noOptions) = Inl e'"
proof -
  have root: "readdir lockedDirTree = Inr
     [(''a.jpg'', plainFile [1, 2, 3]),
      (''private'', Directory (Inl EACCES)),
      (''z.gif'', plainFile [])]"
    by (simp add: lockedDirTree_def)
  have rec: "recursive (mergedOptions noOptions)"
    by (simp add: scan_eval)
  have sub: "Unlistable [''srv'', ''images'', ''private''] EACCES
               \<in> set (scanWalk [''srv'', ''images''] lockedDirTree noOptions)"
    by (simp add: lockedDirTree_def scan_eval)
  show ?thesis
    by (rule unlistable_subdirectory_aborts_scan [OF root rec sub])
qed

end
